theory Spec2Isabelle
  imports Main
begin

section \<open>Values of the translation scheme\<close>

text \<open>
  The scheme \<^verbatim>\<open>schemes/srinivas2015.ts\<close> is written in the Nuskell translation-scheme
  language. Its values are domains, DNA expressions (a sequence of domains with a
  dot-bracket structure, here called complexes) and lists. A domain is issued by
  \<^verbatim>\<open>short()\<close> or \<^verbatim>\<open>long()\<close>; its name is the number the allocator gave it. The
  keyword arguments of the call (\<^verbatim>\<open>tag:'history'\<close>, \<^verbatim>\<open>len:2\<close>, ...) are kept as they
  are written.
\<close>

datatype dkind = Short | Long

datatype domain = MkDomain (did: nat) (dtype: dkind) (dargs: "(string \<times> string) list") (starred: bool)

fun compl :: "domain \<Rightarrow> domain" where
  "compl (MkDomain i k a st) = MkDomain i k a (\<not> st)"

definition tag :: "domain \<Rightarrow> string option" where
  "tag d = map_of (dargs d) ''tag''"

text \<open>The characters of a structure string: \<^verbatim>\<open>( ) . ~ +\<close>.\<close>

datatype sc = Open | Close | Dot | Wild | Plus

text \<open>
  An element of a sequence is a domain, a strand break \<^verbatim>\<open>+\<close>, or (under the wildcard
  \<^verbatim>\<open>~\<close>) a list of complexes that is spliced in at this place. A complex keeps the
  values of the names of its sequence string as attributes, which is what
  \<^verbatim>\<open>react[0].fl\<close> or \<^verbatim>\<open>s.f\<close> read.
\<close>

datatype item = Dom domain | Brk | Sub "complex list"
  and complex = Complex (sequence: "item list") (struct: "sc list")
                        (attributes: "(string \<times> item) list")

datatype conc = Infinite

type_synonym solution = "(complex \<times> conc) list"

record reaction =
  reactants :: "complex list"
  products :: "complex list"
  reversible :: bool

section \<open>Evaluation: allocator state and run-time errors\<close>

text \<open>
  A computation reads and advances the allocator's counter and may stop with a
  run-time error of the interpreter.
\<close>

datatype error = IndexError | AttributeError | MatchError | TypeError | NameError

type_synonym 'a nus = "nat \<Rightarrow> error + ('a \<times> nat)"

definition ret :: "'a \<Rightarrow> 'a nus" where
  "ret x = (\<lambda>c. Inr (x, c))"

definition fail :: "error \<Rightarrow> 'a nus" where
  "fail e = (\<lambda>c. Inl e)"

definition bnd :: "'a nus \<Rightarrow> ('a \<Rightarrow> 'b nus) \<Rightarrow> 'b nus" where
  "bnd m f = (\<lambda>c. case m c of Inl e \<Rightarrow> Inl e | Inr (x, c') \<Rightarrow> f x c')"

fun mapM :: "('a \<Rightarrow> 'b nus) \<Rightarrow> 'a list \<Rightarrow> 'b list nus" where
  "mapM f [] = ret []"
| "mapM f (x # xs) = bnd (f x) (\<lambda>y. bnd (mapM f xs) (\<lambda>ys. ret (y # ys)))"

subsection \<open>Built-in functions of the language\<close>

text \<open>
  Modelled from the spec: the built-in functions of the interpreter, which is not part
  of the scheme file. \<^verbatim>\<open>short\<close> and \<^verbatim>\<open>long\<close> are the domain allocator (a fresh toehold
  or branch-migration domain, the naming counter incremented); \<^verbatim>\<open>flip\<close> is the
  transpose into a fixed number of parallel groups; \<^verbatim>\<open>infty\<close> wraps a complex as
  present in unbounded supply; \<^verbatim>\<open>irrev_reactions\<close> expands every reversible reaction
  into its forward and its backward instance, forward first. Indexing is that of
  the host language (a negative index counts from the end). \<^verbatim>\<open>sum\<close>, \<^verbatim>\<open>range\<close> and
  \<^verbatim>\<open>map2\<close> are written \<open>sum_ts\<close>, \<open>range_ts\<close> and \<open>map2_ts\<close>, the plain names being
  taken in HOL.
\<close>

definition short :: "(string \<times> string) list \<Rightarrow> domain nus" where
  "short args = (\<lambda>c. Inr (MkDomain c Short args False, Suc c))"

definition long :: "(string \<times> string) list \<Rightarrow> domain nus" where
  "long args = (\<lambda>c. Inr (MkDomain c Long args False, Suc c))"

definition len :: "'a list \<Rightarrow> int" where
  "len xs = int (length xs)"

definition index :: "'a list \<Rightarrow> int \<Rightarrow> 'a nus" where
  "index xs i =
     (if 0 \<le> i \<and> i < len xs then ret (xs ! nat i)
      else if i < 0 \<and> - len xs \<le> i then ret (xs ! nat (len xs + i))
      else fail IndexError)"

definition attr :: "complex \<Rightarrow> string \<Rightarrow> item nus" where
  "attr c a = (case map_of (attributes c) a of None \<Rightarrow> fail AttributeError | Some v \<Rightarrow> ret v)"

definition elems :: "item \<Rightarrow> complex list nus" where
  "elems v = (case v of Sub cs \<Rightarrow> ret cs | _ \<Rightarrow> fail TypeError)"

definition range_ts :: "int \<Rightarrow> int list" where
  "range_ts n = map int [0..<nat n]"

definition tail :: "'a list \<Rightarrow> 'a list" where
  "tail xs = drop 1 xs"

definition reverse :: "'a list \<Rightarrow> 'a list" where
  "reverse xs = rev xs"

definition map2_ts :: "('a \<Rightarrow> 'b \<Rightarrow> 'c nus) \<Rightarrow> 'a \<Rightarrow> 'b list \<Rightarrow> 'c list nus" where
  "map2_ts f y xs = mapM (f y) xs"

definition flip :: "'a list list \<Rightarrow> nat \<Rightarrow> 'a list list nus" where
  "flip xss n = mapM (\<lambda>i. mapM (\<lambda>xs. index xs (int i)) xss) [0..<n]"

definition infty :: "complex \<Rightarrow> solution" where
  "infty c = [(c, Infinite)]"

definition sum_ts :: "'a list list \<Rightarrow> 'a list" where
  "sum_ts xss = concat xss"

fun irrev_reactions :: "reaction list \<Rightarrow> reaction list" where
  "irrev_reactions [] = []"
| "irrev_reactions (r # rs) =
     (if reversible r
      then \<lparr>reactants = reactants r, products = products r, reversible = False\<rparr>
         # \<lparr>reactants = products r, products = reactants r, reversible = False\<rparr>
         # irrev_reactions rs
      else r # irrev_reactions rs)"

subsection \<open>DNA expressions\<close>

text \<open>
  A DNA expression \<^verbatim>\<open>"hx fx + fx*" | "( ( + )"\<close> is written here with its sequence
  string already split at the blanks: \<open>T ''hx''\<close> for a name, \<open>TC ''fx''\<close> for the
  starred name \<^verbatim>\<open>fx*\<close>, \<open>TB\<close> for \<^verbatim>\<open>+\<close>. The names are looked up among the bindings
  of the \<^verbatim>\<open>where\<close> clause. A starred name is the complement of its domain.
\<close>

datatype tok = T string | TC string | TB

fun tok_names :: "tok list \<Rightarrow> string list" where
  "tok_names [] = []"
| "tok_names (T n # ts) = n # tok_names ts"
| "tok_names (TC n # ts) = n # tok_names ts"
| "tok_names (TB # ts) = tok_names ts"

definition lookup :: "(string \<times> item) list \<Rightarrow> string \<Rightarrow> item nus" where
  "lookup env n = (case map_of env n of None \<Rightarrow> fail NameError | Some v \<Rightarrow> ret v)"

fun resolve :: "(string \<times> item) list \<Rightarrow> tok \<Rightarrow> item nus" where
  "resolve env (T n) = lookup env n"
| "resolve env (TC n) =
     bnd (lookup env n) (\<lambda>v. case v of Dom d \<Rightarrow> ret (Dom (compl d)) | _ \<Rightarrow> fail TypeError)"
| "resolve env TB = ret Brk"

definition dna :: "tok list \<Rightarrow> sc list \<Rightarrow> (string \<times> item) list \<Rightarrow> complex nus" where
  "dna toks str env =
     bnd (mapM (resolve env) toks) (\<lambda>sq.
     bnd (mapM (\<lambda>n. bnd (lookup env n) (\<lambda>v. ret (n, v))) (remdups (tok_names toks))) (\<lambda>at.
     ret (Complex sq str at)))"

section \<open>The scheme\<close>

text \<open>
  \<^verbatim>\<open>class formal(s) = "f m s" | ". . ."
    where { f = short(top:'WHHHHW', bottom:'WDDDDW'); m = long(len:2); s = short() }\<close>
\<close>

definition formal :: "string \<Rightarrow> complex nus" where
  "formal s0 =
     bnd (short [(''top'', ''WHHHHW''), (''bottom'', ''WDDDDW'')]) (\<lambda>f.
     bnd (long [(''len'', ''2'')]) (\<lambda>m.
     bnd (short []) (\<lambda>s.
     dna [T ''f'', T ''m'', T ''s''] [Dot, Dot, Dot]
         [(''f'', Dom f), (''m'', Dom m), (''s'', Dom s)])))"

text \<open>
  \<^verbatim>\<open>module flux(r,p) = if len(p) == 0 then [[]]
    else if len(p) == 1 then [["h f" | ". ."]] where {h = long(); f = p[0].f }
    else [["h" | "."]] where {h = long(); f = p[0].f }\<close>
\<close>

definition flux :: "complex list \<Rightarrow> complex list \<Rightarrow> complex list list nus" where
  "flux r p =
     (if len p = 0 then ret [[]]
      else if len p = 1 then
        bnd (long []) (\<lambda>h.
        bnd (bnd (index p 0) (\<lambda>p0. attr p0 ''f'')) (\<lambda>f.
        bnd (dna [T ''h'', T ''f''] [Dot, Dot] [(''h'', Dom h), (''f'', f)]) (\<lambda>c.
        ret [[c]])))
      else
        bnd (long []) (\<lambda>h.
        bnd (bnd (index p 0) (\<lambda>p0. attr p0 ''f'')) (\<lambda>f.
        bnd (dna [T ''h''] [Dot] [(''h'', Dom h), (''f'', f)]) (\<lambda>c.
        ret [[c]]))))"

text \<open>
  \<^verbatim>\<open>macro prodg(s) =
    [ "hy fy my sy + " | " (  (  .  . + ", "fy* hy*" | ") )", "hy fy" | ". ."]
    where { hy = long(tag:'history'); fy = s.f; my = s.m; sy = s.s }\<close>
\<close>

definition prodg :: "complex \<Rightarrow> complex list nus" where
  "prodg s =
     bnd (long [(''tag'', ''history'')]) (\<lambda>hy.
     bnd (attr s ''f'') (\<lambda>fy.
     bnd (attr s ''m'') (\<lambda>my.
     bnd (attr s ''s'') (\<lambda>sy.
     (let env = [(''hy'', Dom hy), (''fy'', fy), (''my'', my), (''sy'', sy)] in
      bnd (dna [T ''hy'', T ''fy'', T ''my'', T ''sy'', TB] [Open, Open, Dot, Dot, Plus] env) (\<lambda>c1.
      bnd (dna [TC ''fy'', TC ''hy''] [Close, Close] env) (\<lambda>c2.
      bnd (dna [T ''hy'', T ''fy''] [Dot, Dot] env) (\<lambda>c3.
      ret [c1, c2, c3]))))))))"

text \<open>
  \<^verbatim>\<open>module srinivas_pgate(r, p, hflux) =
    [ "hx fx mx sx + n + m fx* hx* sa*" | "(  (  .  .  + ~ + ~  )   )   . ",
      "fx help" | ".  ~"]
    where { sa = r[len(r)-1].s; hx = hflux; fx = p[0].f; mx = p[0].m; sx = p[0].s;
            [n, m, help] = flip(map(prodg, tail(p)), 3); m = reverse(m) }\<close>
\<close>

definition srinivas_pgate :: "complex list \<Rightarrow> complex list \<Rightarrow> item \<Rightarrow> complex list nus" where
  "srinivas_pgate r p hflux =
     bnd (bnd (index r (len r - 1)) (\<lambda>x. attr x ''s'')) (\<lambda>sa.
     (let hx = hflux in
     bnd (bnd (index p 0) (\<lambda>x. attr x ''f'')) (\<lambda>fx.
     bnd (bnd (index p 0) (\<lambda>x. attr x ''m'')) (\<lambda>mx.
     bnd (bnd (index p 0) (\<lambda>x. attr x ''s'')) (\<lambda>sx.
     bnd (bnd (mapM prodg (tail p)) (\<lambda>gs. flip gs 3)) (\<lambda>nmh.
     (case nmh of
        [n, m, help] \<Rightarrow>
          (let m = reverse m;
               env = [(''sa'', sa), (''hx'', hx), (''fx'', fx), (''mx'', mx), (''sx'', sx),
                      (''n'', Sub n), (''m'', Sub m), (''help'', Sub help)] in
           bnd (dna [T ''hx'', T ''fx'', T ''mx'', T ''sx'', TB, T ''n'', TB, T ''m'',
                     TC ''fx'', TC ''hx'', TC ''sa'']
                    [Open, Open, Dot, Dot, Plus, Wild, Plus, Wild, Close, Close, Dot] env) (\<lambda>c1.
           bnd (dna [T ''fx'', T ''help''] [Dot, Wild] env) (\<lambda>c2.
           ret [c1, c2])))
      | _ \<Rightarrow> fail MatchError)))))))"

text \<open>
  \<^verbatim>\<open>module srinivas_pgate_p1(r, p, hflux) =
    [ "hx fx mx sx + fx* hx* sa*" | "(  (  .  .  +  )   )   . "]
    where { sa = r[len(r)-1].s; hx = hflux; fx = p[0].f; mx = p[0].m; sx = p[0].s }\<close>
\<close>

definition srinivas_pgate_p1 :: "complex list \<Rightarrow> complex list \<Rightarrow> item \<Rightarrow> complex list nus" where
  "srinivas_pgate_p1 r p hflux =
     bnd (bnd (index r (len r - 1)) (\<lambda>x. attr x ''s'')) (\<lambda>sa.
     (let hx = hflux in
     bnd (bnd (index p 0) (\<lambda>x. attr x ''f'')) (\<lambda>fx.
     bnd (bnd (index p 0) (\<lambda>x. attr x ''m'')) (\<lambda>mx.
     bnd (bnd (index p 0) (\<lambda>x. attr x ''s'')) (\<lambda>sx.
     (let env = [(''sa'', sa), (''hx'', hx), (''fx'', fx), (''mx'', mx), (''sx'', sx)] in
      bnd (dna [T ''hx'', T ''fx'', T ''mx'', T ''sx'', TB, TC ''fx'', TC ''hx'', TC ''sa'']
               [Open, Open, Dot, Dot, Plus, Close, Close, Dot] env) (\<lambda>c1.
      ret [c1])))))))"

text \<open>
  \<^verbatim>\<open>macro reactg(r, i) =
    [ "mb sb fa + " | "(  (  (  + ", "fa* sb* mb*" | " )   )   ) ", "mb sb fa" | ".  .  . " ]
    where { mb = r[i].m; sb = r[i].s; fa = r[i+1].f }\<close>
\<close>

definition reactg :: "complex list \<Rightarrow> int \<Rightarrow> complex list nus" where
  "reactg r i =
     bnd (bnd (index r i) (\<lambda>x. attr x ''m'')) (\<lambda>mb.
     bnd (bnd (index r i) (\<lambda>x. attr x ''s'')) (\<lambda>sb.
     bnd (bnd (index r (i + 1)) (\<lambda>x. attr x ''f'')) (\<lambda>fa.
     (let env = [(''mb'', mb), (''sb'', sb), (''fa'', fa)] in
      bnd (dna [T ''mb'', T ''sb'', T ''fa'', TB] [Open, Open, Open, Plus] env) (\<lambda>c1.
      bnd (dna [TC ''fa'', TC ''sb'', TC ''mb''] [Close, Close, Close] env) (\<lambda>c2.
      bnd (dna [T ''mb'', T ''sb'', T ''fa''] [Dot, Dot, Dot] env) (\<lambda>c3.
      ret [c1, c2, c3])))))))"

text \<open>
  \<^verbatim>\<open>module srinivas_rgate(r, p) =
    [ "n + mr sr fl + sr* mr* m fr*" | "~ + (  (  ~  +  )   )  ~  . ", "l" | "~" ]
    where { fr = r[0].f; mr = r[len(r)-1].m; sr = r[len(r)-1].s; [fl] = flux(r,p);
            [n,m,l] = flip(map2(reactg, r, range(len(r)-1)),3); m = reverse(m) }\<close>
\<close>

definition srinivas_rgate :: "complex list \<Rightarrow> complex list \<Rightarrow> complex list nus" where
  "srinivas_rgate r p =
     bnd (bnd (index r 0) (\<lambda>x. attr x ''f'')) (\<lambda>fr.
     bnd (bnd (index r (len r - 1)) (\<lambda>x. attr x ''m'')) (\<lambda>mr.
     bnd (bnd (index r (len r - 1)) (\<lambda>x. attr x ''s'')) (\<lambda>sr.
     bnd (flux r p) (\<lambda>fls.
     (case fls of
        [fl] \<Rightarrow>
          bnd (bnd (map2_ts reactg r (range_ts (len r - 1))) (\<lambda>gs. flip gs 3)) (\<lambda>nml.
          (case nml of
             [n, m, l] \<Rightarrow>
               (let m = reverse m;
                    env = [(''fr'', fr), (''mr'', mr), (''sr'', sr), (''fl'', Sub fl),
                           (''n'', Sub n), (''m'', Sub m), (''l'', Sub l)] in
                bnd (dna [T ''n'', TB, T ''mr'', T ''sr'', T ''fl'', TB,
                          TC ''sr'', TC ''mr'', T ''m'', TC ''fr'']
                         [Wild, Plus, Open, Open, Wild, Plus, Close, Close, Wild, Dot] env) (\<lambda>c1.
                bnd (dna [T ''l''] [Wild] env) (\<lambda>c2.
                ret [c1, c2])))
           | _ \<Rightarrow> fail MatchError))
      | _ \<Rightarrow> fail MatchError)))))"

text \<open>
  \<^verbatim>\<open>module srinivas_rgate_r0(r, p) =
    [ "mr sr fl + sr* mr* fr*" | "(  (  ~  +  )   )   . ", "f m s " | ". . ." ]
    where { f = short(); m = long(); s = short(); fr = f; mr = m; sr = s; [fl] = flux(r,p) }\<close>
\<close>

definition srinivas_rgate_r0 :: "complex list \<Rightarrow> complex list \<Rightarrow> complex list nus" where
  "srinivas_rgate_r0 r p =
     bnd (short []) (\<lambda>f.
     bnd (long []) (\<lambda>m.
     bnd (short []) (\<lambda>s.
     (let fr = f; mr = m; sr = s in
     bnd (flux r p) (\<lambda>fls.
     (case fls of
        [fl] \<Rightarrow>
          (let env = [(''f'', Dom f), (''m'', Dom m), (''s'', Dom s),
                      (''fr'', Dom fr), (''mr'', Dom mr), (''sr'', Dom sr), (''fl'', Sub fl)] in
           bnd (dna [T ''mr'', T ''sr'', T ''fl'', TB, TC ''sr'', TC ''mr'', TC ''fr'']
                    [Open, Open, Wild, Plus, Close, Close, Dot] env) (\<lambda>c1.
           bnd (dna [T ''f'', T ''m'', T ''s''] [Dot, Dot, Dot] env) (\<lambda>c2.
           ret [c1, c2])))
      | _ \<Rightarrow> fail MatchError))))))"

text \<open>
  The history handle \<^verbatim>\<open>hist = react[0].fl[0].h\<close> of the four \<^verbatim>\<open>where\<close> clauses of
  \<^verbatim>\<open>rxn\<close>, and the two bindings \<^verbatim>\<open>react\<close> and \<^verbatim>\<open>produce\<close> of its outer \<^verbatim>\<open>where\<close>
  clause, evaluated in this order; \<open>re\<close> is the value of \<^verbatim>\<open>react\<close>.
\<close>

definition hist :: "complex list \<Rightarrow> item nus" where
  "hist react =
     bnd (index react 0) (\<lambda>r0.
     bnd (attr r0 ''fl'') (\<lambda>fl.
     bnd (elems fl) (\<lambda>fls.
     bnd (index fls 0) (\<lambda>fl0.
     attr fl0 ''h''))))"

text \<open>
  \<^verbatim>\<open>module rxn(r) = sum(map(infty, react + produce))
    where {
      react = if len(r.reactants) == 0 then srinivas_rgate_r0(r.reactants, r.products)
              else srinivas_rgate(r.reactants, r.products);
      produce =
        if len(r.products) == 0 then []
        else if len(r.products) == 1 then
          if len(r.reactants) == 0 then
            srinivas_pgate_p1(react, r.products, hist) where hist = react[0].fl[0].h
          else
            srinivas_pgate_p1(r.reactants, r.products, hist) where hist = react[0].fl[0].h
        else
          if len(r.reactants) == 0 then
            srinivas_pgate(react, r.products, hist) where hist = react[0].fl[0].h
          else
            srinivas_pgate(r.reactants, r.products, hist) where hist = react[0].fl[0].h }\<close>
\<close>

definition react :: "reaction \<Rightarrow> complex list nus" where
  "react r =
     (if len (reactants r) = 0 then srinivas_rgate_r0 (reactants r) (products r)
      else srinivas_rgate (reactants r) (products r))"

definition produce :: "reaction \<Rightarrow> complex list \<Rightarrow> complex list nus" where
  "produce r re =
     (if len (products r) = 0 then ret []
      else if len (products r) = 1 then
        (if len (reactants r) = 0 then
           bnd (hist re) (\<lambda>h. srinivas_pgate_p1 re (products r) h)
         else
           bnd (hist re) (\<lambda>h. srinivas_pgate_p1 (reactants r) (products r) h))
      else
        (if len (reactants r) = 0 then
           bnd (hist re) (\<lambda>h. srinivas_pgate re (products r) h)
         else
           bnd (hist re) (\<lambda>h. srinivas_pgate (reactants r) (products r) h)))"

definition rxn :: "reaction \<Rightarrow> solution nus" where
  "rxn r =
     bnd (react r) (\<lambda>re.
     bnd (produce r re) (\<lambda>pr.
     ret (sum_ts (map infty (re @ pr)))))"

text \<open>\<^verbatim>\<open>module main(crn) = sum(map(rxn, crn)) where crn = irrev_reactions(crn)\<close>\<close>

definition main :: "reaction list \<Rightarrow> solution nus" where
  "main crn0 =
     (let crn = irrev_reactions crn0 in
      bnd (mapM rxn crn) (\<lambda>xs. ret (sum_ts xs)))"

section \<open>Well-formed inputs and the values the builders compute\<close>

text \<open>
  The species of a reaction are complexes made by \<^verbatim>\<open>formal\<close>. The builders read
  nothing of a species but its attributes \<^verbatim>\<open>f\<close>, \<^verbatim>\<open>m\<close> and \<^verbatim>\<open>s\<close>, which have to be
  domains: \<open>species\<close> says so, and \<open>dm x a\<close> is the domain of attribute \<open>a\<close>.
\<close>

definition dom_attr :: "complex \<Rightarrow> string \<Rightarrow> domain option" where
  "dom_attr x a = (case map_of (attributes x) a of Some (Dom d) \<Rightarrow> Some d | _ \<Rightarrow> None)"

definition species :: "complex \<Rightarrow> bool" where
  "species x = (dom_attr x ''f'' \<noteq> None \<and> dom_attr x ''m'' \<noteq> None \<and> dom_attr x ''s'' \<noteq> None)"

definition dm :: "complex \<Rightarrow> string \<Rightarrow> domain" where
  "dm x a = (case dom_attr x a of Some d \<Rightarrow> d | None \<Rightarrow> MkDomain 0 Short [] False)"

text \<open>The species that \<^verbatim>\<open>formal\<close> makes when the allocator's counter is \<open>c\<close>.\<close>

definition species_at :: "nat \<Rightarrow> complex" where
  "species_at c =
     Complex [Dom (MkDomain c Short [(''top'', ''WHHHHW''), (''bottom'', ''WDDDDW'')] False),
              Dom (MkDomain (c + 1) Long [(''len'', ''2'')] False),
              Dom (MkDomain (c + 2) Short [] False)]
             [Dot, Dot, Dot]
             [(''f'', Dom (MkDomain c Short [(''top'', ''WHHHHW''), (''bottom'', ''WDDDDW'')] False)),
              (''m'', Dom (MkDomain (c + 1) Long [(''len'', ''2'')] False)),
              (''s'', Dom (MkDomain (c + 2) Short [] False))]"

text \<open>
  The results of the builders on species, written out: \<open>history c\<close> is the domain that
  \<^verbatim>\<open>long(tag:'history')\<close> issues at counter \<open>c\<close>, and each \<open>_out\<close> function is the list
  of complexes of the builder of that name, given the domains it reads or allocates.
  The lemmas below prove that the builders compute these values.
\<close>

definition history :: "nat \<Rightarrow> domain" where
  "history c = MkDomain c Long [(''tag'', ''history'')] False"

definition prodg_out :: "domain \<Rightarrow> complex \<Rightarrow> complex list" where
  "prodg_out hy s =
     [Complex [Dom hy, Dom (dm s ''f''), Dom (dm s ''m''), Dom (dm s ''s''), Brk]
              [Open, Open, Dot, Dot, Plus]
              [(''hy'', Dom hy), (''fy'', Dom (dm s ''f'')), (''my'', Dom (dm s ''m'')),
               (''sy'', Dom (dm s ''s''))],
      Complex [Dom (compl (dm s ''f'')), Dom (compl hy)] [Close, Close]
              [(''fy'', Dom (dm s ''f'')), (''hy'', Dom hy)],
      Complex [Dom hy, Dom (dm s ''f'')] [Dot, Dot]
              [(''hy'', Dom hy), (''fy'', Dom (dm s ''f''))]]"

definition reactg_out :: "complex list \<Rightarrow> nat \<Rightarrow> complex list" where
  "reactg_out r i =
     [Complex [Dom (dm (r ! i) ''m''), Dom (dm (r ! i) ''s''), Dom (dm (r ! Suc i) ''f''), Brk]
              [Open, Open, Open, Plus]
              [(''mb'', Dom (dm (r ! i) ''m'')), (''sb'', Dom (dm (r ! i) ''s'')),
               (''fa'', Dom (dm (r ! Suc i) ''f''))],
      Complex [Dom (compl (dm (r ! Suc i) ''f'')), Dom (compl (dm (r ! i) ''s'')),
               Dom (compl (dm (r ! i) ''m''))]
              [Close, Close, Close]
              [(''fa'', Dom (dm (r ! Suc i) ''f'')), (''sb'', Dom (dm (r ! i) ''s'')),
               (''mb'', Dom (dm (r ! i) ''m''))],
      Complex [Dom (dm (r ! i) ''m''), Dom (dm (r ! i) ''s''), Dom (dm (r ! Suc i) ''f'')]
              [Dot, Dot, Dot]
              [(''mb'', Dom (dm (r ! i) ''m'')), (''sb'', Dom (dm (r ! i) ''s'')),
               (''fa'', Dom (dm (r ! Suc i) ''f''))]]"

definition flux_out :: "domain \<Rightarrow> complex list \<Rightarrow> complex list" where
  "flux_out h p =
     (if length p = 0 then []
      else if length p = 1 then
        [Complex [Dom h, Dom (dm (p ! 0) ''f'')] [Dot, Dot]
                 [(''h'', Dom h), (''f'', Dom (dm (p ! 0) ''f''))]]
      else [Complex [Dom h] [Dot] [(''h'', Dom h)]])"

definition rgate_out :: "complex list \<Rightarrow> complex list \<Rightarrow> complex list" where
  "rgate_out r fl =
     (let gs = map (reactg_out r) [0..<length r - 1];
          n = map (\<lambda>g. g ! 0) gs; m = rev (map (\<lambda>g. g ! 1) gs); l = map (\<lambda>g. g ! 2) gs;
          fr = dm (r ! 0) ''f''; mr = dm (last r) ''m''; sr = dm (last r) ''s''
      in [Complex [Sub n, Brk, Dom mr, Dom sr, Sub fl, Brk, Dom (compl sr), Dom (compl mr),
                   Sub m, Dom (compl fr)]
                  [Wild, Plus, Open, Open, Wild, Plus, Close, Close, Wild, Dot]
                  [(''n'', Sub n), (''fl'', Sub fl), (''sr'', Dom sr), (''mr'', Dom mr),
                   (''m'', Sub m), (''fr'', Dom fr)],
          Complex [Sub l] [Wild] [(''l'', Sub l)]])"

definition r0_out :: "domain \<Rightarrow> domain \<Rightarrow> domain \<Rightarrow> complex list \<Rightarrow> complex list" where
  "r0_out f m s fl =
     [Complex [Dom m, Dom s, Sub fl, Brk, Dom (compl s), Dom (compl m), Dom (compl f)]
              [Open, Open, Wild, Plus, Close, Close, Dot]
              [(''fl'', Sub fl), (''sr'', Dom s), (''mr'', Dom m), (''fr'', Dom f)],
      Complex [Dom f, Dom m, Dom s] [Dot, Dot, Dot]
              [(''f'', Dom f), (''m'', Dom m), (''s'', Dom s)]]"

definition pgate_out :: "domain \<Rightarrow> domain \<Rightarrow> complex list \<Rightarrow> nat \<Rightarrow> complex list" where
  "pgate_out sa hx p c =
     (let gs = map (\<lambda>(i, x). prodg_out (history i) x) (enumerate c (tl p));
          n = map (\<lambda>g. g ! 0) gs; m = rev (map (\<lambda>g. g ! 1) gs); help = map (\<lambda>g. g ! 2) gs;
          fx = dm (hd p) ''f''; mx = dm (hd p) ''m''; sx = dm (hd p) ''s''
      in [Complex [Dom hx, Dom fx, Dom mx, Dom sx, Brk, Sub n, Brk, Sub m,
                   Dom (compl fx), Dom (compl hx), Dom (compl sa)]
                  [Open, Open, Dot, Dot, Plus, Wild, Plus, Wild, Close, Close, Dot]
                  [(''mx'', Dom mx), (''sx'', Dom sx), (''n'', Sub n), (''m'', Sub m),
                   (''fx'', Dom fx), (''hx'', Dom hx), (''sa'', Dom sa)],
          Complex [Dom fx, Sub help] [Dot, Wild] [(''fx'', Dom fx), (''help'', Sub help)]])"

definition p1_out :: "domain \<Rightarrow> domain \<Rightarrow> complex list \<Rightarrow> complex list" where
  "p1_out sa hx p =
     (let fx = dm (hd p) ''f''; mx = dm (hd p) ''m''; sx = dm (hd p) ''s''
      in [Complex [Dom hx, Dom fx, Dom mx, Dom sx, Brk, Dom (compl fx), Dom (compl hx),
                   Dom (compl sa)]
                  [Open, Open, Dot, Dot, Plus, Close, Close, Dot]
                  [(''mx'', Dom mx), (''sx'', Dom sx), (''fx'', Dom fx), (''hx'', Dom hx),
                   (''sa'', Dom sa)]])"

text \<open>
  The same for a whole reaction compiled from counter \<open>c\<close>: the counter at which the
  flux domain is issued, that domain, the complexes of the reactant side and of the
  product side, and the counter afterwards.
\<close>

definition wf_reaction :: "reaction \<Rightarrow> bool" where
  "wf_reaction r = (list_all species (reactants r) \<and> list_all species (products r))"

definition flux_at :: "reaction \<Rightarrow> nat \<Rightarrow> nat" where
  "flux_at r c = (if reactants r = [] then c + 3 else c)"

definition hflux :: "reaction \<Rightarrow> nat \<Rightarrow> domain" where
  "hflux r c = MkDomain (flux_at r c) Long [] False"

definition react_out :: "reaction \<Rightarrow> nat \<Rightarrow> complex list" where
  "react_out r c =
     (if reactants r = []
      then r0_out (MkDomain c Short [] False) (MkDomain (c + 1) Long [] False)
             (MkDomain (c + 2) Short [] False) (flux_out (hflux r c) (products r))
      else rgate_out (reactants r) (flux_out (hflux r c) (products r)))"

definition react_end :: "reaction \<Rightarrow> nat \<Rightarrow> nat" where
  "react_end r c = flux_at r c + (if products r = [] then 0 else 1)"

definition anchor_s :: "reaction \<Rightarrow> nat \<Rightarrow> domain" where
  "anchor_s r c =
     (if reactants r = [] then MkDomain (c + 2) Short [] False else dm (last (reactants r)) ''s'')"

definition produce_out :: "reaction \<Rightarrow> nat \<Rightarrow> complex list" where
  "produce_out r c =
     (if products r = [] then []
      else if length (products r) = 1
      then p1_out (anchor_s r c) (hflux r c) (products r)
      else pgate_out (anchor_s r c) (hflux r c) (products r) (react_end r c))"

definition rxn_end :: "reaction \<Rightarrow> nat \<Rightarrow> nat" where
  "rxn_end r c = react_end r c + (length (products r) - 1)"

definition rxn_out :: "reaction \<Rightarrow> nat \<Rightarrow> solution" where
  "rxn_out r c = sum_ts (map infty (react_out r c @ produce_out r c))"

text \<open>
  Modelled from the spec: the flat reading of a complex (the list flattening that the
  spec counts among the implicit behaviours of the scheme language), which the
  interpreter computes and which is not part of the scheme file. The complexes bound
  to a name under the wildcard \<^verbatim>\<open>~\<close> are spliced in at its place, each with its own
  structure, so that every domain and every strand break stands beside its structure
  character.
\<close>

fun flat :: "complex \<Rightarrow> (item \<times> sc) list"
  and flats :: "complex list \<Rightarrow> (item \<times> sc) list"
  and flat_items :: "item list \<Rightarrow> sc list \<Rightarrow> (item \<times> sc) list" where
  "flat (Complex sq st at) = flat_items sq st"
| "flats [] = []"
| "flats (x # xs) = flat x @ flats xs"
| "flat_items (Sub xs # sq) (ch # st) = flats xs @ flat_items sq st"
| "flat_items (Dom d # sq) (ch # st) = (Dom d, ch) # flat_items sq st"
| "flat_items (Brk # sq) (ch # st) = (Brk, ch) # flat_items sq st"
| "flat_items [] st = []"
| "flat_items sq [] = []"

text \<open>
  The three conditions of the data model on a complex. \<open>aligned\<close>: sequence and
  structure have the same length at every level, a strand break stands under \<^verbatim>\<open>+\<close>, a
  domain under one of \<^verbatim>\<open>( ) .\<close> and a spliced list under \<^verbatim>\<open>~\<close>, so that the strands and
  the domains of the structure are those of the sequence. \<open>balanced\<close>: the parentheses of
  the flat structure nest. \<open>paired\<close>: they nest and the domain under every \<^verbatim>\<open>)\<close> is the
  complement of the domain under the \<^verbatim>\<open>(\<close> it closes (and so each is the complement of
  the other, complementation being an involution).
\<close>

fun aligned :: "complex \<Rightarrow> bool"
  and aligneds :: "complex list \<Rightarrow> bool"
  and aligned_items :: "item list \<Rightarrow> sc list \<Rightarrow> bool" where
  "aligned (Complex sq st at) = aligned_items sq st"
| "aligneds [] = True"
| "aligneds (x # xs) = (aligned x \<and> aligneds xs)"
| "aligned_items (Sub xs # sq) (ch # st) = (ch = Wild \<and> aligneds xs \<and> aligned_items sq st)"
| "aligned_items (Dom d # sq) (ch # st) = ((ch = Open \<or> ch = Close \<or> ch = Dot) \<and> aligned_items sq st)"
| "aligned_items (Brk # sq) (ch # st) = (ch = Plus \<and> aligned_items sq st)"
| "aligned_items [] [] = True"
| "aligned_items [] (ch # st) = False"
| "aligned_items (x # sq) [] = False"

fun paired :: "(item \<times> sc) list \<Rightarrow> domain list \<Rightarrow> bool" where
  "paired [] stk = (stk = [])"
| "paired ((Dom d, Open) # xs) stk = paired xs (d # stk)"
| "paired ((Dom d, Close) # xs) [] = False"
| "paired ((Dom d, Close) # xs) (t # stk) = (d = compl t \<and> paired xs stk)"
| "paired ((Dom d, Dot) # xs) stk = paired xs stk"
| "paired ((Brk, Plus) # xs) stk = paired xs stk"
| "paired (x # xs) stk = False"

fun balanced :: "sc list \<Rightarrow> nat \<Rightarrow> bool" where
  "balanced [] n = (n = 0)"
| "balanced (Open # xs) n = balanced xs (Suc n)"
| "balanced (Close # xs) 0 = False"
| "balanced (Close # xs) (Suc n) = balanced xs n"
| "balanced (x # xs) n = balanced xs n"

text \<open>Observers used to state what a compilation returns.\<close>

definition results :: "'a nus \<Rightarrow> nat \<Rightarrow> 'a option" where
  "results m c = (case m c of Inr (x, c') \<Rightarrow> Some x | Inl e \<Rightarrow> None)"

definition outputs :: "solution nus \<Rightarrow> nat \<Rightarrow> complex list" where
  "outputs m c = (case m c of Inr (out, c') \<Rightarrow> map fst out | Inl e \<Rightarrow> [])"

definition prodg_groups :: "complex \<Rightarrow> nat" where
  "prodg_groups x = (case map_of (attributes x) ''n'' of Some (Sub n) \<Rightarrow> length n | _ \<Rightarrow> 0)"

fun strands :: "item list \<Rightarrow> item list list" where
  "strands [] = [[]]"
| "strands (Brk # xs) = [] # strands xs"
| "strands (x # xs) = (case strands xs of s # ss \<Rightarrow> (x # s) # ss | [] \<Rightarrow> [[x]])"

text \<open>
  The two irreversible instances of a reaction, in the words of the spec: forward from
  the reactants to the products, backward from the products to the reactants.
\<close>

definition forward :: "reaction \<Rightarrow> reaction" where
  "forward r = \<lparr>reactants = reactants r, products = products r, reversible = False\<rparr>"

definition backward :: "reaction \<Rightarrow> reaction" where
  "backward r = \<lparr>reactants = products r, products = reactants r, reversible = False\<rparr>"

text \<open>A complex that meets the three conditions.\<close>

definition wfc :: "complex \<Rightarrow> bool" where
  "wfc x = (aligned x \<and> balanced (map snd (flat x)) 0 \<and> paired (flat x) [])"

text \<open>
  The results of compiling a list of irreversible reactions one after the other from
  counter \<open>c\<close>, and the counter afterwards.
\<close>

fun main_out :: "reaction list \<Rightarrow> nat \<Rightarrow> solution list" where
  "main_out [] c = []"
| "main_out (r # rs) c = rxn_out r c # main_out rs (rxn_end r c)"

fun main_end :: "reaction list \<Rightarrow> nat \<Rightarrow> nat" where
  "main_end [] c = c"
| "main_end (r # rs) c = main_end rs (rxn_end r c)"

text \<open>
  Names. The name of a domain is the number the allocator gave it, with a star when
  it is a complement. \<open>doms_of\<close> lists the domains of a flat complex, \<open>out_doms\<close> those of
  a list of complexes, \<open>crn_doms\<close> the domains of the species of a CRN. \<open>base d\<close> is \<open>d\<close>
  without its star.
\<close>

definition dname :: "domain \<Rightarrow> nat \<times> bool" where
  "dname d = (did d, starred d)"

definition base :: "domain \<Rightarrow> domain" where
  "base d = MkDomain (did d) (dtype d) (dargs d) False"

fun doms_of :: "(item \<times> sc) list \<Rightarrow> domain list" where
  "doms_of [] = []"
| "doms_of ((Dom d, ch) # xs) = d # doms_of xs"
| "doms_of (x # xs) = doms_of xs"

definition out_doms :: "complex list \<Rightarrow> domain list" where
  "out_doms xs = concat (map (\<lambda>x. doms_of (flat x)) xs)"

definition sp_doms :: "complex \<Rightarrow> domain list" where
  "sp_doms x = [dm x ''f'', dm x ''m'', dm x ''s'']"

definition rxn_doms :: "reaction \<Rightarrow> domain list" where
  "rxn_doms r = concat (map sp_doms (reactants r @ products r))"

definition crn_doms :: "reaction list \<Rightarrow> domain list" where
  "crn_doms crn = concat (map rxn_doms crn)"

text \<open>
  A CRN is well formed at counter \<open>c\<close> when its reactions are over species, the
  domains of the species were issued before \<open>c\<close>, and no two of them that differ by
  more than the star have the same number: what the species model of the spec
  guarantees for the species it hands to the compiler.
\<close>

definition wf_crn :: "reaction list \<Rightarrow> nat \<Rightarrow> bool" where
  "wf_crn crn c =
     (list_all wf_reaction crn \<and>
      (\<forall>d \<in> set (crn_doms crn). did d < c) \<and>
      (\<forall>d1 \<in> set (crn_doms crn). \<forall>d2 \<in> set (crn_doms crn).
         did d1 = did d2 \<longrightarrow> base d1 = base d2))"

text \<open>
  The domain that the allocator issues at counter \<open>i\<close> while the reaction \<open>r\<close> is
  compiled from counter \<open>c\<close>, and while a list of reactions is.
\<close>

definition ledger :: "reaction \<Rightarrow> nat \<Rightarrow> nat \<Rightarrow> domain" where
  "ledger r c i =
     (if i < flux_at r c then (if i = c + 1 then MkDomain i Long [] False else MkDomain i Short [] False)
      else if i = flux_at r c then MkDomain i Long [] False
      else history i)"

fun main_ledger :: "reaction list \<Rightarrow> nat \<Rightarrow> nat \<Rightarrow> domain" where
  "main_ledger [] c i = MkDomain i Short [] False"
| "main_ledger (r # rs) c i =
     (if i < rxn_end r c then ledger r c i else main_ledger rs (rxn_end r c) i)"

definition bset :: "(item \<times> sc) list \<Rightarrow> domain set" where
  "bset xs = base ` set (doms_of xs)"

definition sp_base :: "complex list \<Rightarrow> domain set" where
  "sp_base xs = base ` (\<Union>x \<in> set xs. set (sp_doms x))"

text \<open>
  The non-empty strands of a complex in its flat reading, each domain written as its
  name.
\<close>

fun item_name :: "item \<Rightarrow> nat \<times> bool" where
  "item_name (Dom d) = dname d"
| "item_name x = (0, False)"

definition strand_names :: "complex \<Rightarrow> (nat \<times> bool) list list" where
  "strand_names x = map (map item_name) (filter (\<lambda>s. s \<noteq> []) (strands (map fst (flat x))))"

section \<open>Evaluation lemmas\<close>

lemma bnd_ret [simp]: "bnd (ret x) f = f x"
  by (simp add: bnd_def ret_def)

lemma bnd_fail [simp]: "bnd (fail e) f = fail e"
  by (simp add: bnd_def fail_def)

lemma bnd_Inr: "m c = Inr (x, c') \<Longrightarrow> bnd m f c = f x c'"
  by (simp add: bnd_def)

lemma index_ok: "0 \<le> i \<Longrightarrow> i < len xs \<Longrightarrow> index xs i = ret (xs ! nat i)"
  by (simp add: index_def)

lemma index_nat: "i < length xs \<Longrightarrow> index xs (int i) = ret (xs ! i)"
  by (simp add: index_def len_def)

lemma index_last: "xs \<noteq> [] \<Longrightarrow> index xs (len xs - 1) = ret (last xs)"
  by (cases xs rule: rev_cases) (simp_all add: index_def len_def)

lemma index_0: "xs \<noteq> [] \<Longrightarrow> index xs 0 = ret (hd xs)"
  by (cases xs) (simp_all add: index_def len_def)

lemma species_attr:
  assumes "species x"
  shows "attr x ''f'' = ret (Dom (dm x ''f''))" "attr x ''m'' = ret (Dom (dm x ''m''))"
        "attr x ''s'' = ret (Dom (dm x ''s''))"
  using assms
  by (auto simp: species_def dm_def dom_attr_def attr_def split: option.splits item.splits)

lemma dom_attr_attr: "dom_attr x a = Some d \<Longrightarrow> attr x a = ret (Dom d)"
  by (auto simp: dom_attr_def attr_def split: option.splits item.splits)

lemma long_apply: "bnd (long args) f c = f (MkDomain c Long args False) (Suc c)"
  by (simp add: bnd_def long_def)

lemma short_apply: "bnd (short args) f c = f (MkDomain c Short args False) (Suc c)"
  by (simp add: bnd_def short_def)

lemma mapM_ret: "(\<And>x. x \<in> set xs \<Longrightarrow> f x = ret (g x)) \<Longrightarrow> mapM f xs = ret (map g xs)"
  by (induction xs) simp_all

lemma flip3:
  assumes "\<And>g. g \<in> set gs \<Longrightarrow> length g = 3"
  shows "flip gs 3 = ret [map (\<lambda>g. g ! 0) gs, map (\<lambda>g. g ! 1) gs, map (\<lambda>g. g ! 2) gs]"
proof -
  have u: "[0..<3] = [0, 1, 2]" by (simp add: upt_rec)
  have "mapM (\<lambda>xs. index xs (int i)) gs = ret (map (\<lambda>g. g ! i) gs)" if "i < 3" for i
    using that assms by (intro mapM_ret) (simp add: index_nat)
  from this [of 0] this [of 1] this [of 2] show ?thesis by (simp add: flip_def u)
qed

lemma prodg_eq: "species s \<Longrightarrow> prodg s c = Inr (prodg_out (history c) s, Suc c)"
  by (simp add: prodg_def long_apply species_attr dna_def lookup_def prodg_out_def history_def)
     (simp add: ret_def)

lemma mapM_prodg:
  "(\<And>x. x \<in> set xs \<Longrightarrow> species x) \<Longrightarrow>
   mapM prodg xs c = Inr (map (\<lambda>(i, x). prodg_out (history i) x) (enumerate c xs), c + length xs)"
proof (induction xs arbitrary: c)
  case Nil
  then show ?case by (simp add: ret_def)
next
  case (Cons x xs)
  have "species x" using Cons.prems by simp
  then show ?case
    using Cons.IH [of "Suc c"] Cons.prems
    by (simp add: bnd_Inr [OF prodg_eq] bnd_Inr) (simp add: ret_def)
qed

lemma reactg_eq:
  assumes "\<And>x. x \<in> set r \<Longrightarrow> species x" "Suc i < length r"
  shows "reactg r (int i) = ret (reactg_out r i)"
proof -
  have a: "species (r ! i)" "species (r ! Suc i)" using assms by simp_all
  have b: "index r (int i) = ret (r ! i)" "index r (int i + 1) = ret (r ! Suc i)"
    using assms(2) index_nat [of "Suc i" r] by (simp_all add: index_nat add.commute)
  show ?thesis
    by (simp add: reactg_def b species_attr [OF a(1)] species_attr [OF a(2)] dna_def lookup_def
        reactg_out_def Let_def)
qed

lemma map2_reactg:
  assumes "\<And>x. x \<in> set r \<Longrightarrow> species x"
  shows "map2_ts reactg r (range_ts (len r - 1)) = ret (map (reactg_out r) [0..<length r - 1])"
proof -
  have "mapM (reactg r) (map int [0..<length r - 1]) = ret (map (reactg_out r \<circ> nat) (map int [0..<length r - 1]))"
    by (rule mapM_ret) (use assms in \<open>auto simp: reactg_eq\<close>)
  moreover have "nat (len r - 1) = length r - 1" by (simp add: len_def)
  ultimately show ?thesis by (simp add: map2_ts_def range_ts_def o_def)
qed

lemma flux_eq:
  assumes "\<And>x. x \<in> set p \<Longrightarrow> species x"
  shows "flux r p c = Inr ([flux_out (MkDomain c Long [] False) p], c + (if p = [] then 0 else 1))"
proof (cases p)
  case Nil
  then show ?thesis by (simp add: flux_def len_def flux_out_def ret_def)
next
  case (Cons x xs)
  then have "species x" using assms by simp
  then show ?thesis using Cons
    by (simp add: flux_def len_def flux_out_def long_apply index_0 species_attr dna_def lookup_def)
       (simp add: ret_def)
qed

lemma reactg_out_length: "length (reactg_out r i) = 3"
  by (simp add: reactg_out_def)

lemma rgate_eq:
  assumes "\<And>x. x \<in> set r \<Longrightarrow> species x" "\<And>x. x \<in> set p \<Longrightarrow> species x" "r \<noteq> []"
  shows "srinivas_rgate r p c =
         Inr (rgate_out r (flux_out (MkDomain c Long [] False) p), c + (if p = [] then 0 else 1))"
proof -
  have a: "species (hd r)" "species (last r)" using assms(1,3) by simp_all
  have f: "flip (map (reactg_out r) [0..<length r - Suc 0]) 3 =
           ret [map (\<lambda>g. g ! 0) (map (reactg_out r) [0..<length r - Suc 0]),
                map (\<lambda>g. g ! 1) (map (reactg_out r) [0..<length r - Suc 0]),
                map (\<lambda>g. g ! 2) (map (reactg_out r) [0..<length r - Suc 0])]"
    by (rule flip3) (auto simp: reactg_out_length)
  have g: "map2_ts reactg r (range_ts (len r - 1)) = ret (map (reactg_out r) [0..<length r - Suc 0])"
    using map2_reactg [OF assms(1)] by simp
  have h: "r ! 0 = hd r" using assms(3) by (simp add: hd_conv_nth)
  show ?thesis
    using assms(3)
    by (simp add: srinivas_rgate_def index_0 index_last species_attr [OF a(1)] species_attr [OF a(2)]
        bnd_Inr [OF flux_eq [OF assms(2)]] g f reverse_def
        dna_def lookup_def rgate_out_def Let_def h)
       (simp add: ret_def)
qed

lemma rgate_r0_eq:
  assumes "\<And>x. x \<in> set p \<Longrightarrow> species x"
  shows "srinivas_rgate_r0 r p c =
         Inr (r0_out (MkDomain c Short [] False) (MkDomain (c + 1) Long [] False)
                (MkDomain (c + 2) Short [] False) (flux_out (MkDomain (c + 3) Long [] False) p),
              c + 3 + (if p = [] then 0 else 1))"
  by (simp add: srinivas_rgate_r0_def short_apply long_apply bnd_Inr [OF flux_eq [OF assms]]
      dna_def lookup_def r0_out_def)
     (simp add: ret_def numeral_3_eq_3)

lemma prodg_out_length: "length (prodg_out hy s) = 3"
  by (simp add: prodg_out_def)

lemma pgate_eq:
  assumes "\<And>x. x \<in> set p \<Longrightarrow> species x" "p \<noteq> []" "r \<noteq> []" "dom_attr (last r) ''s'' = Some sa"
  shows "srinivas_pgate r p (Dom hx) c = Inr (pgate_out sa hx p c, c + (length p - 1))"
proof -
  have a: "species (hd p)" using assms(1,2) by simp
  have t: "\<And>x. x \<in> set (tl p) \<Longrightarrow> species x"
    using assms(1) by (meson list.set_sel(2) assms(2))
  let ?gs = "map (\<lambda>(i, x). prodg_out (history i) x) (enumerate c (tl p))"
  have f: "flip ?gs 3 = ret [map (\<lambda>g. g ! 0) ?gs, map (\<lambda>g. g ! 1) ?gs, map (\<lambda>g. g ! 2) ?gs]"
    by (rule flip3) (auto simp: prodg_out_length)
  have m: "mapM prodg (tail p) c = Inr (?gs, c + (length p - 1))"
    using mapM_prodg [of "tl p" c, OF t] by (simp add: tail_def drop_Suc)
  have nm: "bnd (mapM prodg (tail p)) (\<lambda>gs. flip gs 3) c =
            Inr ([map (\<lambda>g. g ! 0) ?gs, map (\<lambda>g. g ! 1) ?gs, map (\<lambda>g. g ! 2) ?gs],
                 c + (length p - 1))"
    by (simp only: bnd_Inr [of "mapM prodg (tail p)", OF m] f ret_def)
  show ?thesis
    using assms(2,3)
    by (simp add: srinivas_pgate_def index_0 index_last species_attr [OF a]
        dom_attr_attr [OF assms(4)] reverse_def
        bnd_Inr [of "bnd (mapM prodg (tail p)) (\<lambda>gs. flip gs 3)", OF nm]
        dna_def lookup_def pgate_out_def Let_def)
       (simp add: ret_def)
qed

lemma pgate_p1_eq:
  assumes "\<And>x. x \<in> set p \<Longrightarrow> species x" "p \<noteq> []" "r \<noteq> []" "dom_attr (last r) ''s'' = Some sa"
  shows "srinivas_pgate_p1 r p (Dom hx) = ret (p1_out sa hx p)"
proof -
  have a: "species (hd p)" using assms(1,2) by simp
  show ?thesis
    using assms(2,3)
    by (simp add: srinivas_pgate_p1_def index_0 index_last species_attr [OF a]
        dom_attr_attr [OF assms(4)] dna_def lookup_def p1_out_def Let_def)
qed

lemma hist_rgate: "p \<noteq> [] \<Longrightarrow> hist (rgate_out r (flux_out h p)) = ret (Dom h)"
  by (simp add: hist_def rgate_out_def Let_def index_0 attr_def elems_def flux_out_def)

lemma hist_r0: "p \<noteq> [] \<Longrightarrow> hist (r0_out f m s (flux_out h p)) = ret (Dom h)"
  by (simp add: hist_def r0_out_def Let_def index_0 attr_def elems_def flux_out_def)

lemma hist_rgate_empty: "hist (rgate_out r (flux_out h [])) = fail IndexError"
  by (simp add: hist_def rgate_out_def Let_def index_0 attr_def elems_def flux_out_def index_def len_def)

lemma hist_r0_empty: "hist (r0_out f m s (flux_out h [])) = fail IndexError"
  by (simp add: hist_def r0_out_def Let_def index_0 attr_def elems_def flux_out_def index_def len_def)

lemma species_at_species: "species (species_at c)"
  by (simp add: species_def dom_attr_def species_at_def)

lemma formal_eq: "formal nm c = Inr (species_at c, c + 3)"
  by (simp add: formal_def short_apply long_apply dna_def lookup_def species_at_def)
     (simp add: ret_def numeral_3_eq_3)

lemma wf_reactionD:
  assumes "wf_reaction r"
  shows "\<And>x. x \<in> set (reactants r) \<Longrightarrow> species x" "\<And>x. x \<in> set (products r) \<Longrightarrow> species x"
  using assms by (simp_all add: wf_reaction_def list_all_iff)

lemma react_eq:
  assumes "wf_reaction r"
  shows "react r c = Inr (react_out r c, react_end r c)"
proof (cases "reactants r = []")
  case True
  then show ?thesis
    using rgate_r0_eq [of "products r" "reactants r" c, OF wf_reactionD(2) [OF assms]]
    by (simp add: react_def len_def react_out_def react_end_def flux_at_def hflux_def)
next
  case False
  then show ?thesis
    using rgate_eq [of "reactants r" "products r" c, OF wf_reactionD [OF assms]]
    by (simp add: react_def len_def react_out_def react_end_def flux_at_def hflux_def)
qed

lemma hist_react_out: "products r \<noteq> [] \<Longrightarrow> hist (react_out r c) = ret (Dom (hflux r c))"
  by (simp add: react_out_def hist_rgate hist_r0)

lemma hist_react_out_empty: "products r = [] \<Longrightarrow> hist (react_out r c) = fail IndexError"
  by (simp add: react_out_def hist_rgate_empty hist_r0_empty)

lemma anchor_reactants:
  assumes "wf_reaction r" "reactants r \<noteq> []"
  shows "dom_attr (last (reactants r)) ''s'' = Some (anchor_s r c)"
proof -
  have "species (last (reactants r))" using assms wf_reactionD(1) by simp
  then show ?thesis using assms(2)
    by (auto simp: species_def anchor_s_def dm_def)
qed

lemma anchor_react_out:
  assumes "reactants r = []"
  shows "dom_attr (last (react_out r c)) ''s'' = Some (anchor_s r c)" "react_out r c \<noteq> []"
  using assms by (simp_all add: react_out_def r0_out_def anchor_s_def dom_attr_def)

lemma produce_eq:
  assumes "wf_reaction r"
  shows "produce r (react_out r c) (react_end r c) = Inr (produce_out r c, rxn_end r c)"
proof (cases "products r = []")
  case True
  then show ?thesis by (simp add: produce_def len_def produce_out_def rxn_end_def ret_def)
next
  case False
  note p = wf_reactionD(2) [OF assms] False
  show ?thesis
  proof (cases "reactants r = []")
    case True
    note a = anchor_react_out [OF True, of c]
    show ?thesis
      using True False pgate_eq [OF p a(2,1), of "hflux r c" "react_end r c"]
        pgate_p1_eq [OF p a(2,1), of "hflux r c"]
      by (simp add: produce_def len_def hist_react_out produce_out_def rxn_end_def)
         (simp_all add: ret_def)
  next
    case nonempty: False
    note a = anchor_reactants [OF assms nonempty, of c]
    show ?thesis
      using nonempty False pgate_eq [OF p nonempty a, of "hflux r c" "react_end r c"]
        pgate_p1_eq [OF p nonempty a, of "hflux r c"]
      by (simp add: produce_def len_def hist_react_out produce_out_def rxn_end_def)
         (simp_all add: ret_def)
  qed
qed

lemma rxn_eq:
  assumes "wf_reaction r"
  shows "rxn r c = Inr (rxn_out r c, rxn_end r c)"
  by (simp add: rxn_def bnd_Inr [of "react r", OF react_eq [OF assms]]
      bnd_Inr [of "produce r (react_out r c)", OF produce_eq [OF assms]] rxn_out_def ret_def)

lemma flux_out_nonempty: "p \<noteq> [] \<Longrightarrow> flux_out h p = [hd (flux_out h p)]"
  by (simp add: flux_out_def)

lemma react_out_fl: "attr (hd (react_out r c)) ''fl'' = ret (Sub (flux_out (hflux r c) (products r)))"
  by (simp add: react_out_def r0_out_def rgate_out_def Let_def attr_def)

lemma react_out_nonempty: "react_out r c \<noteq> []"
  by (simp add: react_out_def r0_out_def rgate_out_def Let_def)

lemma flux_out_h: "p \<noteq> [] \<Longrightarrow> attr (hd (flux_out h p)) ''h'' = ret (Dom h) \<and> hd (sequence (hd (flux_out h p))) = Dom h"
  by (simp add: flux_out_def attr_def)

lemma bnd_ret_right: "bnd m ret = m"
  by (rule ext) (simp add: bnd_def ret_def split: sum.splits)

lemma main_single: "\<not> reversible r \<Longrightarrow> main [r] = rxn r"
  by (rule ext) (simp add: main_def bnd_def ret_def sum_ts_def split: sum.splits)

lemma outputs_Inr: "m c = Inr (out, c') \<Longrightarrow> outputs m c = map fst out"
  by (simp add: outputs_def)

lemma tag_history: "tag (history c) = Some ''history''"
  by (simp add: tag_def history_def)

lemma rxn_out_xy:
  "rxn_out \<lparr>reactants = [], products = [X, Y], reversible = False\<rparr> c =
     sum_ts (map infty
       (r0_out (MkDomain c Short [] False) (MkDomain (c + 1) Long [] False) (MkDomain (c + 2) Short [] False)
          [Complex [Dom (MkDomain (c + 3) Long [] False)] [Dot]
             [(''h'', Dom (MkDomain (c + 3) Long [] False))]] @
        pgate_out (MkDomain (c + 2) Short [] False) (MkDomain (c + 3) Long [] False) [X, Y] (c + 4)))"
  by (simp add: rxn_out_def react_out_def produce_out_def flux_out_def hflux_def flux_at_def
      anchor_s_def react_end_def ac_simps)

lemma outputs_rxn: "wf_reaction r \<Longrightarrow> outputs (rxn r) c = react_out r c @ produce_out r c"
  by (simp add: outputs_def rxn_eq rxn_out_def sum_ts_def infty_def o_def map_concat)

lemma flux_out_flat:
  "map fst (flats (flux_out h p)) =
     (if p = [] then [] else if length p = 1 then [Dom h, Dom (dm (p ! 0) ''f'')] else [Dom h])"
  by (simp add: flux_out_def)

lemma wf_forward_backward:
  "wf_reaction r \<Longrightarrow> wf_reaction (forward r)" "wf_reaction r \<Longrightarrow> wf_reaction (backward r)"
  by (simp_all add: wf_reaction_def forward_def backward_def)

lemma main_reversible:
  "reversible r \<Longrightarrow>
   main [r] = bnd (main [forward r]) (\<lambda>a. bnd (main [backward r]) (\<lambda>b. ret (a @ b)))"
  by (rule ext)
     (simp add: main_def bnd_def ret_def sum_ts_def forward_def backward_def split: sum.splits)

lemma compl_compl [simp]: "compl (compl d) = d"
  by (cases d) simp

lemma flats_append [simp]: "flats (xs @ ys) = flats xs @ flats ys"
  by (induction xs) simp_all

lemma flats_map: "flats (map f xs) = concat (map (\<lambda>x. flat (f x)) xs)"
  by (induction xs) simp_all

lemma flats_rev_map: "flats (rev (map f xs)) = concat (rev (map (\<lambda>x. flat (f x)) xs))"
  by (induction xs) simp_all

lemma aligneds_append [simp]: "aligneds (xs @ ys) = (aligneds xs \<and> aligneds ys)"
  by (induction xs) simp_all

lemma aligneds_map: "aligneds (map f xs) = (\<forall>x \<in> set xs. aligned (f x))"
  by (induction xs) simp_all

lemma aligneds_rev: "aligneds (rev xs) = aligneds xs"
  by (induction xs) auto

lemma paired_nest:
  assumes op: "\<And>x rest stk. paired (opn x @ rest) stk = paired rest (push x @ stk)"
    and cl: "\<And>x rest stk. paired (cls x @ rest) (push x @ stk) = paired rest stk"
    and mid: "\<And>rest stk. paired (mid @ rest) stk = paired rest stk"
  shows "paired (concat (map opn xs) @ mid @ concat (rev (map cls xs)) @ rest) stk =
         paired rest stk"
proof (induction xs arbitrary: rest stk)
  case Nil
  then show ?case by (simp add: mid)
next
  case (Cons x xs)
  have "paired (concat (map opn (x # xs)) @ mid @ concat (rev (map cls (x # xs))) @ rest) stk =
        paired (concat (map opn xs) @ mid @ concat (rev (map cls xs)) @ (cls x @ rest))
          (push x @ stk)"
    by (simp add: op)
  also have "\<dots> = paired (cls x @ rest) (push x @ stk)" by (rule Cons.IH)
  also have "\<dots> = paired rest stk" by (rule cl)
  finally show ?case .
qed

lemma paired_concat_neutral:
  assumes "\<And>x rest stk. x \<in> set xs \<Longrightarrow> paired (f x @ rest) stk = paired rest stk"
  shows "paired (concat (map f xs) @ rest) stk = paired rest stk"
  using assms by (induction xs) simp_all

lemma paired_balanced: "paired xs stk \<Longrightarrow> balanced (map snd xs) (length stk)"
proof (induction xs arbitrary: stk)
  case Nil
  then show ?case by simp
next
  case (Cons x xs)
  obtain i ch where x: "x = (i, ch)" by (cases x)
  show ?case
  proof (cases i)
    case (Dom d)
    show ?thesis
    proof (cases ch)
      case Open
      then have "paired xs (d # stk)" using Cons.prems x Dom by simp
      from Cons.IH [OF this] show ?thesis using x Open by simp
    next
      case Close
      then obtain t stk' where s: "stk = t # stk'" and "paired xs stk'"
        using Cons.prems x Dom by (cases stk) simp_all
      from Cons.IH [OF this(2)] show ?thesis using x Close s by simp
    next
      case Dot
      then have "paired xs stk" using Cons.prems x Dom by simp
      from Cons.IH [OF this] show ?thesis using x Dot by simp
    next
      case Wild
      then show ?thesis using Cons.prems x Dom by simp
    next
      case Plus
      then show ?thesis using Cons.prems x Dom by simp
    qed
  next
    case Brk
    show ?thesis
    proof (cases "ch = Plus")
      case True
      then have "paired xs stk" using Cons.prems x Brk by simp
      from Cons.IH [OF this] show ?thesis using x True by simp
    next
      case False
      then show ?thesis using Cons.prems x Brk by (cases ch) simp_all
    qed
  next
    case (Sub cs)
    then show ?thesis using Cons.prems x by simp
  qed
qed

lemma wfcI: "aligned x \<Longrightarrow> paired (flat x) [] \<Longrightarrow> wfc x"
  using paired_balanced [of "flat x" "[]"] by (simp add: wfc_def)

lemma flux_out_neutral: "paired (flats (flux_out h p) @ rest) stk = paired rest stk"
  by (simp add: flux_out_def)

lemma flux_out_aligned: "aligneds (flux_out h p)"
  by (simp add: flux_out_def)

lemma rgate_out_wfc: "x \<in> set (rgate_out r fl) \<Longrightarrow> fl = flux_out h p \<Longrightarrow> wfc x"
proof -
  assume x: "x \<in> set (rgate_out r fl)" and fl: "fl = flux_out h p"
  let ?is = "[0..<length r - 1]"
  let ?opn = "\<lambda>i. flat (reactg_out r i ! 0)"
  let ?cls = "\<lambda>i. flat (reactg_out r i ! 1)"
  let ?rel = "\<lambda>i. flat (reactg_out r i ! 2)"
  let ?push = "\<lambda>i. [dm (r ! Suc i) ''f'', dm (r ! i) ''s'', dm (r ! i) ''m'']"
  let ?mid = "[(Brk, Plus), (Dom (dm (last r) ''m''), Open), (Dom (dm (last r) ''s''), Open)] @
              flats fl @
              [(Brk, Plus), (Dom (compl (dm (last r) ''s'')), Close),
               (Dom (compl (dm (last r) ''m'')), Close)]"
  have opn: "paired (?opn i @ rest) stk = paired rest (?push i @ stk)" for i rest stk
    by (simp add: reactg_out_def)
  have cls: "paired (?cls i @ rest) (?push i @ stk) = paired rest stk" for i rest stk
    by (simp add: reactg_out_def)
  have mid: "paired (?mid @ rest) stk = paired rest stk" for rest stk
    by (simp add: fl flux_out_neutral)
  have core: "paired (concat (map ?opn ?is) @ ?mid @ concat (rev (map ?cls ?is)) @
                [(Dom (compl (dm (r ! 0) ''f'')), Dot)]) [] = True"
    by (subst paired_nest [where push = ?push, OF opn cls mid]) simp
  have rel: "paired (concat (map ?rel ?is) @ []) [] = True"
    by (subst paired_concat_neutral) (simp_all add: reactg_out_def)
  have al: "aligned (reactg_out r i ! 0)" "aligned (reactg_out r i ! Suc 0)"
    "aligned (reactg_out r i ! 2)" for i
    by (simp_all add: reactg_out_def)
  have "x = hd (rgate_out r fl) \<or> x = rgate_out r fl ! 1"
    using x by (auto simp: rgate_out_def Let_def)
  then show "wfc x"
  proof
    assume "x = hd (rgate_out r fl)"
    then show ?thesis
      using core
      by (intro wfcI)
         (simp_all add: rgate_out_def Let_def flats_map flats_rev_map aligneds_map aligneds_rev al
           fl flux_out_aligned)
  next
    assume "x = rgate_out r fl ! 1"
    then show ?thesis
      using rel
      by (intro wfcI) (simp_all add: rgate_out_def Let_def flats_map aligneds_map al)
  qed
qed

lemma r0_out_wfc: "x \<in> set (r0_out f m s (flux_out h p)) \<Longrightarrow> wfc x"
  by (auto simp: r0_out_def flux_out_neutral flux_out_aligned intro!: wfcI)

lemma p1_out_wfc: "x \<in> set (p1_out sa hx p) \<Longrightarrow> wfc x"
  by (auto simp: p1_out_def Let_def intro!: wfcI)

lemma pgate_out_wfc: "x \<in> set (pgate_out sa hx p c) \<Longrightarrow> wfc x"
proof -
  assume x: "x \<in> set (pgate_out sa hx p c)"
  let ?is = "enumerate c (tl p)"
  let ?g = "\<lambda>(i, y). prodg_out (history i) y"
  let ?opn = "\<lambda>z. flat (?g z ! 0)"
  let ?cls = "\<lambda>z. flat (?g z ! 1)"
  let ?rel = "\<lambda>z. flat (?g z ! 2)"
  let ?push = "\<lambda>(i, y). [dm y ''f'', history i]"
  have opn: "paired (?opn z @ rest) stk = paired rest (?push z @ stk)" for z rest stk
    by (cases z) (simp add: prodg_out_def)
  have cls: "paired (?cls z @ rest) (?push z @ stk) = paired rest stk" for z rest stk
    by (cases z) (simp add: prodg_out_def)
  have mid: "paired ([(Brk, Plus)] @ rest) stk = paired rest stk" for rest stk
    by simp
  have nest: "paired (concat (map ?opn ?is) @ [(Brk, Plus)] @ concat (rev (map ?cls ?is)) @ rest)
                stk = paired rest stk" for rest stk
    by (rule paired_nest [where push = ?push, OF opn cls mid])
  have rel: "paired (concat (map ?rel ?is) @ []) [] = True"
    by (subst paired_concat_neutral) (auto simp: prodg_out_def)
  have al: "aligned (?g z ! 0)" "aligned (?g z ! Suc 0)" "aligned (?g z ! 2)" for z
    by (cases z, simp add: prodg_out_def)+
  have "x = hd (pgate_out sa hx p c) \<or> x = pgate_out sa hx p c ! 1"
    using x by (auto simp: pgate_out_def Let_def)
  then show "wfc x"
  proof
    assume "x = hd (pgate_out sa hx p c)"
    then show ?thesis
      using nest
      by (intro wfcI)
         (simp_all add: pgate_out_def Let_def flats_map flats_rev_map aligneds_map aligneds_rev al)
  next
    assume "x = pgate_out sa hx p c ! 1"
    then show ?thesis
      using rel
      by (intro wfcI) (simp_all add: pgate_out_def Let_def flats_map aligneds_map al)
  qed
qed

lemma rxn_out_wfc: "x \<in> set (map fst (rxn_out r c)) \<Longrightarrow> wfc x"
proof -
  assume "x \<in> set (map fst (rxn_out r c))"
  then have "x \<in> set (react_out r c) \<or> x \<in> set (produce_out r c)"
    by (auto simp: rxn_out_def sum_ts_def infty_def)
  then show "wfc x"
    by (auto simp: react_out_def produce_out_def
        dest: r0_out_wfc rgate_out_wfc [OF _ refl] p1_out_wfc pgate_out_wfc split: if_splits)
qed

lemma mapM_rxn:
  "list_all wf_reaction crn \<Longrightarrow> mapM rxn crn c = Inr (main_out crn c, main_end crn c)"
proof (induction crn arbitrary: c)
  case Nil
  then show ?case by (simp add: ret_def)
next
  case (Cons r rs)
  then have w: "wf_reaction r" and ws: "list_all wf_reaction rs" by simp_all
  show ?case
    by (simp add: bnd_Inr [of "rxn r", OF rxn_eq [OF w]]
        bnd_Inr [of "mapM rxn rs", OF Cons.IH [OF ws]] ret_def)
qed

lemma irrev_wf: "list_all wf_reaction crn \<Longrightarrow> list_all wf_reaction (irrev_reactions crn)"
  by (induction crn) (simp_all add: wf_reaction_def)

lemma main_eq:
  assumes "list_all wf_reaction crn"
  shows "main crn c = Inr (sum_ts (main_out (irrev_reactions crn) c), main_end (irrev_reactions crn) c)"
  by (simp add: main_def bnd_Inr [of "mapM rxn (irrev_reactions crn)", OF mapM_rxn [OF irrev_wf [OF assms]]]
      ret_def)

lemma main_out_wfc: "o' \<in> set (main_out crn c) \<Longrightarrow> x \<in> set (map fst o') \<Longrightarrow> wfc x"
proof (induction crn arbitrary: c)
  case Nil
  then show ?case by simp
next
  case (Cons r rs)
  then show ?case using rxn_out_wfc [of x r c] by auto
qed

lemma outputs_main:
  assumes "list_all wf_reaction crn"
  shows "outputs (main crn) c = map fst (sum_ts (main_out (irrev_reactions crn) c))"
  by (simp add: outputs_def main_eq [OF assms])

lemma main_wfc:
  assumes "list_all wf_reaction crn" "x \<in> set (outputs (main crn) c)"
  shows "wfc x"
  using assms(2) main_out_wfc [of _ "irrev_reactions crn" c x]
  by (auto simp: outputs_main [OF assms(1)] sum_ts_def)

lemma base_compl [simp]: "base (compl d) = base d"
  by (cases d) (simp add: base_def)

lemma did_base [simp]: "did (base d) = did d"
  by (simp add: base_def)

lemma base_history [simp]: "base (history i) = history i"
  by (simp add: base_def history_def)

lemma doms_of_append [simp]: "doms_of (xs @ ys) = doms_of xs @ doms_of ys"
  by (induction xs rule: doms_of.induct) simp_all

lemma bset_simps [simp]:
  "bset [] = {}"
  "bset ((Dom d, ch) # xs) = insert (base d) (bset xs)"
  "bset ((Brk, ch) # xs) = bset xs"
  "bset (xs @ ys) = bset xs \<union> bset ys"
  by (auto simp: bset_def)

lemma bset_concat: "bset (concat xss) = (\<Union>xs \<in> set xss. bset xs)"
  by (induction xss) simp_all

lemma sp_base_mem:
  "x \<in> set xs \<Longrightarrow> base (dm x ''f'') \<in> sp_base xs"
  "x \<in> set xs \<Longrightarrow> base (dm x ''m'') \<in> sp_base xs"
  "x \<in> set xs \<Longrightarrow> base (dm x ''s'') \<in> sp_base xs"
  by (auto simp: sp_base_def sp_doms_def)

lemma flux_out_bset:
  "bset (flats (flux_out h p)) \<subseteq> (if p = [] then {} else insert (base h) (sp_base p))"
  by (cases p) (auto simp: flux_out_def sp_base_def sp_doms_def)

lemma rgate_out_bset:
  assumes "x \<in> set (rgate_out r fl)" "r \<noteq> []"
  shows "bset (flat x) \<subseteq> sp_base r \<union> bset (flats fl)"
proof -
  have i: "base (dm (r ! i) a) \<in> sp_base r \<and> base (dm (r ! Suc i) b) \<in> sp_base r"
    if "i < length r - 1" "a \<in> {''f'', ''m'', ''s''}" "b \<in> {''f'', ''m'', ''s''}" for i a b
  proof -
    have "r ! i \<in> set r" "r ! Suc i \<in> set r" using that(1) by simp_all
    then show ?thesis using that(2,3) by (auto simp: sp_base_def sp_doms_def)
  qed
  have l: "last r \<in> set r" "r ! 0 \<in> set r" using assms(2) by simp_all
  have g: "d \<in> sp_base r"
    if "i < length r - Suc 0" "d \<in> bset (flat (reactg_out r i ! k))" "k = 0 \<or> k = Suc 0 \<or> k = 2"
    for i k d
    using that(2,3) i [of i "''m''" "''f''"] i [of i "''s''" "''f''"] that(1)
    by (auto simp: reactg_out_def)
  have "x = hd (rgate_out r fl) \<or> x = rgate_out r fl ! 1"
    using assms(1) by (auto simp: rgate_out_def Let_def)
  then show ?thesis
  proof
    assume "x = hd (rgate_out r fl)"
    then show ?thesis
      using sp_base_mem [OF l(1)] sp_base_mem [OF l(2)]
      by (auto simp: rgate_out_def Let_def flats_map flats_rev_map bset_concat
          dest: g [where k = 0] g [where k = "Suc 0"])
  next
    assume "x = rgate_out r fl ! 1"
    then show ?thesis
      by (auto simp: rgate_out_def Let_def flats_map bset_concat dest: g [where k = 2])
  qed
qed

lemma r0_out_bset:
  "x \<in> set (r0_out f m s fl) \<Longrightarrow> bset (flat x) \<subseteq> {base f, base m, base s} \<union> bset (flats fl)"
  by (auto simp: r0_out_def)

lemma p1_out_bset:
  "x \<in> set (p1_out sa hx p) \<Longrightarrow> p \<noteq> [] \<Longrightarrow> bset (flat x) \<subseteq> {base sa, base hx} \<union> sp_base p"
  using sp_base_mem [of "hd p" p] by (auto simp: p1_out_def Let_def)

lemma pgate_out_bset:
  assumes "x \<in> set (pgate_out sa hx p c)" "p \<noteq> []"
  shows "bset (flat x) \<subseteq> {base sa, base hx} \<union> sp_base p \<union> history ` {c..<c + (length p - 1)}"
proof -
  let ?S = "{base sa, base hx} \<union> sp_base p \<union> history ` {c..<c + (length p - 1)}"
  have e: "c \<le> i \<and> i < c + (length p - 1) \<and> y \<in> set p" if "(i, y) \<in> set (enumerate c (tl p))" for i y
  proof -
    from that have i: "c \<le> i" "i < c + length (tl p)" and y: "y = tl p ! (i - c)"
      by (auto simp: in_set_enumerate_eq)
    then have "y \<in> set (tl p)" by simp
    then have "y \<in> set p" using assms(2) by (meson list.set_sel(2))
    then show ?thesis using i by simp
  qed
  have g: "d \<in> ?S"
    if "d \<in> bset (flat (prodg_out (history i) y ! k))" "(i, y) \<in> set (enumerate c (tl p))"
      "k = 0 \<or> k = Suc 0 \<or> k = 2"
    for i y k d
  proof -
    from e [of i y] that(2) have "c \<le> i" "i < c + (length p - 1)" "y \<in> set p" by simp_all
    then show ?thesis
      using that(1,3) sp_base_mem [of y p] by (auto simp: prodg_out_def)
  qed
  have h: "hd p \<in> set p" using assms(2) by simp
  have "x = hd (pgate_out sa hx p c) \<or> x = pgate_out sa hx p c ! 1"
    using assms(1) by (auto simp: pgate_out_def Let_def)
  then show ?thesis
  proof
    assume "x = hd (pgate_out sa hx p c)"
    then show ?thesis
      using sp_base_mem [OF h]
      by (auto simp: pgate_out_def Let_def flats_map flats_rev_map bset_concat
          dest: g [where k = 0] g [where k = "Suc 0"])
  next
    assume "x = pgate_out sa hx p c ! 1"
    then show ?thesis
      using sp_base_mem [OF h]
      by (auto simp: pgate_out_def Let_def flats_map bset_concat dest: g [where k = 2])
  qed
qed

lemma sp_base_append [simp]: "sp_base (xs @ ys) = sp_base xs \<union> sp_base ys"
  by (auto simp: sp_base_def)

lemma ledger_simps:
  "reactants r = [] \<Longrightarrow> ledger r c c = MkDomain c Short [] False"
  "reactants r = [] \<Longrightarrow> ledger r c (Suc c) = MkDomain (Suc c) Long [] False"
  "reactants r = [] \<Longrightarrow> ledger r c (Suc (Suc c)) = MkDomain (Suc (Suc c)) Short [] False"
  "ledger r c (flux_at r c) = hflux r c"
  "flux_at r c < i \<Longrightarrow> ledger r c i = history i"
  by (simp_all add: ledger_def flux_at_def hflux_def)

lemma react_out_bset:
  assumes "x \<in> set (react_out r c)"
  shows "bset (flat x) \<subseteq> sp_base (reactants r @ products r) \<union> ledger r c ` {c..<react_end r c}"
proof -
  let ?S = "sp_base (reactants r @ products r) \<union> ledger r c ` {c..<react_end r c}"
  have fl: "bset (flats (flux_out (hflux r c) (products r))) \<subseteq> ?S"
  proof (cases "products r = []")
    case True
    then show ?thesis by (simp add: flux_out_def)
  next
    case False
    then have "flux_at r c \<in> {c..<react_end r c}"
      by (simp add: react_end_def flux_at_def)
    then have "base (hflux r c) \<in> ledger r c ` {c..<react_end r c}"
      using ledger_simps(4) [of r c] by (metis base_def did_base domain.sel hflux_def image_eqI)
    then show ?thesis
      using flux_out_bset [of "hflux r c" "products r"] False by auto
  qed
  show ?thesis
  proof (cases "reactants r = []")
    case True
    have in_range: "c \<in> {c..<react_end r c}" "Suc c \<in> {c..<react_end r c}"
      "Suc (Suc c) \<in> {c..<react_end r c}"
      using True by (simp_all add: react_end_def flux_at_def)
    have "base (MkDomain c Short [] False) \<in> ledger r c ` {c..<react_end r c}"
      by (rule image_eqI [OF _ in_range(1)]) (simp add: ledger_simps(1) [OF True] base_def)
    moreover have "base (MkDomain (c + 1) Long [] False) \<in> ledger r c ` {c..<react_end r c}"
      by (rule image_eqI [OF _ in_range(2)]) (simp add: ledger_simps(2) [OF True] base_def)
    moreover have "base (MkDomain (c + 2) Short [] False) \<in> ledger r c ` {c..<react_end r c}"
      by (rule image_eqI [OF _ in_range(3)]) (simp add: ledger_simps(3) [OF True] base_def)
    ultimately have "{base (MkDomain c Short [] False), base (MkDomain (c + 1) Long [] False),
           base (MkDomain (c + 2) Short [] False)} \<subseteq> ledger r c ` {c..<react_end r c}"
      by simp
    then show ?thesis
      using r0_out_bset [of x _ _ _ "flux_out (hflux r c) (products r)"] assms fl True
      by (simp add: react_out_def) blast
  next
    case False
    then show ?thesis
      using rgate_out_bset [of x "reactants r" "flux_out (hflux r c) (products r)"] assms fl
      by (simp add: react_out_def) blast
  qed
qed

lemma produce_out_bset:
  assumes "x \<in> set (produce_out r c)"
  shows "bset (flat x) \<subseteq> sp_base (reactants r @ products r) \<union> ledger r c ` {c..<rxn_end r c}"
proof -
  let ?S = "sp_base (reactants r @ products r) \<union> ledger r c ` {c..<rxn_end r c}"
  have p: "products r \<noteq> []" using assms by (auto simp: produce_out_def)
  have sa: "base (anchor_s r c) \<in> ?S"
  proof (cases "reactants r = []")
    case True
    have "Suc (Suc c) \<in> {c..<rxn_end r c}"
      using True by (simp add: rxn_end_def react_end_def flux_at_def)
    then have "base (MkDomain (c + 2) Short [] False) \<in> ledger r c ` {c..<rxn_end r c}"
      by (rule image_eqI [rotated]) (simp add: ledger_simps(3) [OF True] base_def)
    then show ?thesis using True by (simp add: anchor_s_def)
  next
    case False
    then show ?thesis
      using sp_base_mem(3) [of "last (reactants r)" "reactants r"] by (simp add: anchor_s_def)
  qed
  have hx: "base (hflux r c) \<in> ?S"
  proof -
    have "flux_at r c \<in> {c..<rxn_end r c}"
      using p by (simp add: rxn_end_def react_end_def flux_at_def)
    then have "base (hflux r c) \<in> ledger r c ` {c..<rxn_end r c}"
      by (rule image_eqI [rotated]) (simp add: ledger_simps(4) hflux_def base_def)
    then show ?thesis by simp
  qed
  have hs: "history ` {react_end r c..<react_end r c + (length (products r) - 1)} \<subseteq> ?S"
  proof
    fix d assume "d \<in> history ` {react_end r c..<react_end r c + (length (products r) - 1)}"
    then obtain i where i: "react_end r c \<le> i" "i < rxn_end r c" and d: "d = history i"
      by (auto simp: rxn_end_def)
    have "flux_at r c < i" "c \<le> i"
      using i(1) p by (auto simp: react_end_def flux_at_def split: if_splits)
    then have "d = ledger r c i" "i \<in> {c..<rxn_end r c}"
      using d i(2) by (simp_all add: ledger_simps(5))
    then show "d \<in> ?S" by blast
  qed
  show ?thesis
  proof (cases "length (products r) = 1")
    case True
    then show ?thesis
      using p1_out_bset [of x "anchor_s r c" "hflux r c" "products r"] assms p sa hx
      by (simp add: produce_out_def) blast
  next
    case False
    then show ?thesis
      using pgate_out_bset [of x "anchor_s r c" "hflux r c" "products r" "react_end r c"]
        assms p sa hx hs
      by (simp add: produce_out_def) blast
  qed
qed

lemma react_end_le: "c \<le> react_end r c" "react_end r c \<le> rxn_end r c"
  by (simp_all add: react_end_def rxn_end_def flux_at_def)

lemma did_ledger: "did (ledger r c i) = i"
  by (simp add: ledger_def history_def)

lemma rxn_out_bset:
  assumes "x \<in> set (map fst (rxn_out r c))"
  shows "bset (flat x) \<subseteq> sp_base (reactants r @ products r) \<union> ledger r c ` {c..<rxn_end r c}"
proof -
  from assms have "x \<in> set (react_out r c) \<or> x \<in> set (produce_out r c)"
    by (auto simp: rxn_out_def sum_ts_def infty_def)
  moreover have "ledger r c ` {c..<react_end r c} \<subseteq> ledger r c ` {c..<rxn_end r c}"
    using react_end_le(2) [where r = r and c = c] by (intro image_mono) simp
  ultimately show ?thesis
    using react_out_bset [of x r c] produce_out_bset [of x r c] by blast
qed

lemma main_end_le: "c \<le> main_end crn c"
proof (induction crn arbitrary: c)
  case Nil
  then show ?case by simp
next
  case (Cons r rs)
  have "c \<le> rxn_end r c" using react_end_le [where r = r and c = c] by simp
  also have "\<dots> \<le> main_end rs (rxn_end r c)" by (rule Cons.IH)
  finally show ?case by simp
qed

lemma did_main_ledger: "did (main_ledger crn c i) = i"
  by (induction crn arbitrary: c) (simp_all add: did_ledger)

lemma sp_base_rxn_doms: "sp_base (reactants r @ products r) = base ` set (rxn_doms r)"
  by (auto simp: sp_base_def rxn_doms_def)

lemma main_out_bset:
  "o' \<in> set (main_out crn c) \<Longrightarrow> x \<in> set (map fst o') \<Longrightarrow>
   bset (flat x) \<subseteq> base ` set (crn_doms crn) \<union> main_ledger crn c ` {c..<main_end crn c}"
proof (induction crn arbitrary: c)
  case Nil
  then show ?case by simp
next
  case (Cons r rs)
  let ?c1 = "rxn_end r c"
  have le: "c \<le> ?c1" "?c1 \<le> main_end rs ?c1"
    using react_end_le [where r = r and c = c] main_end_le [where c = ?c1 and crn = rs] by simp_all
  from Cons.prems(1) have "o' = rxn_out r c \<or> o' \<in> set (main_out rs ?c1)" by simp
  then show ?case
  proof
    assume "o' = rxn_out r c"
    then have a: "bset (flat x) \<subseteq> base ` set (rxn_doms r) \<union> ledger r c ` {c..<?c1}"
      using rxn_out_bset [of x r c] Cons.prems(2) unfolding sp_base_rxn_doms by simp
    have l: "ledger r c ` {c..<?c1} \<subseteq> main_ledger (r # rs) c ` {c..<main_end (r # rs) c}"
    proof
      fix d assume "d \<in> ledger r c ` {c..<?c1}"
      then obtain i where i: "c \<le> i" "i < ?c1" "d = ledger r c i" by auto
      then have "d = main_ledger (r # rs) c i" "i \<in> {c..<main_end (r # rs) c}"
        using le(2) by simp_all
      then show "d \<in> main_ledger (r # rs) c ` {c..<main_end (r # rs) c}" by blast
    qed
    have b: "base ` set (rxn_doms r) \<subseteq> base ` set (crn_doms (r # rs))"
      by (intro image_mono) (simp add: crn_doms_def)
    show ?thesis by (rule subset_trans [OF a Un_mono [OF b l]])
  next
    assume "o' \<in> set (main_out rs ?c1)"
    from Cons.IH [OF this Cons.prems(2)]
    have a: "bset (flat x) \<subseteq> base ` set (crn_doms rs) \<union> main_ledger rs ?c1 ` {?c1..<main_end rs ?c1}" .
    have l: "main_ledger rs ?c1 ` {?c1..<main_end rs ?c1} \<subseteq>
          main_ledger (r # rs) c ` {c..<main_end (r # rs) c}"
    proof
      fix d assume "d \<in> main_ledger rs ?c1 ` {?c1..<main_end rs ?c1}"
      then obtain i where i: "?c1 \<le> i" "i < main_end rs ?c1" "d = main_ledger rs ?c1 i" by auto
      then have "d = main_ledger (r # rs) c i" "i \<in> {c..<main_end (r # rs) c}"
        using le(1) by simp_all
      then show "d \<in> main_ledger (r # rs) c ` {c..<main_end (r # rs) c}" by blast
    qed
    have b: "base ` set (crn_doms rs) \<subseteq> base ` set (crn_doms (r # rs))"
      by (intro image_mono) (simp add: crn_doms_def)
    show ?thesis by (rule subset_trans [OF a Un_mono [OF b l]])
  qed
qed

lemma irrev_doms: "set (crn_doms (irrev_reactions crn)) = set (crn_doms crn)"
  by (induction crn) (auto simp: crn_doms_def rxn_doms_def)

lemma base_eq_dname: "base d1 = base d2 \<Longrightarrow> starred d1 = starred d2 \<Longrightarrow> d1 = d2"
  by (cases d1; cases d2) (simp add: base_def)

lemma out_doms_bset:
  "d \<in> set (out_doms xs) \<Longrightarrow> \<exists>x \<in> set xs. base d \<in> bset (flat x)"
  by (auto simp: out_doms_def bset_def)

lemma names_unique:
  assumes "wf_crn crn c"
    and d1: "d1 \<in> set (out_doms (outputs (main crn) c))"
    and d2: "d2 \<in> set (out_doms (outputs (main crn) c))"
    and n: "dname d1 = dname d2"
  shows "d1 = d2"
proof -
  let ?crn = "irrev_reactions crn"
  let ?B = "base ` set (crn_doms crn)"
  let ?G = "main_ledger ?crn c ` {c..<main_end ?crn c}"
  have w: "list_all wf_reaction crn"
    using assms(1) by (simp add: wf_crn_def)
  have lt: "did d < c" if "d \<in> set (crn_doms crn)" for d
    using assms(1) that by (simp add: wf_crn_def)
  have cons: "base e1 = base e2"
    if "e1 \<in> set (crn_doms crn)" "e2 \<in> set (crn_doms crn)" "did e1 = did e2" for e1 e2
    using assms(1) that unfolding wf_crn_def by blast
  have mem: "base d \<in> ?B \<union> ?G" if "d \<in> set (out_doms (outputs (main crn) c))" for d
  proof -
    from out_doms_bset [OF that] obtain x where
      x: "x \<in> set (outputs (main crn) c)" "base d \<in> bset (flat x)" by blast
    from x(1) have "x \<in> set (map fst (concat (main_out ?crn c)))"
      by (simp add: outputs_main [OF w] sum_ts_def)
    then obtain o' where o: "o' \<in> set (main_out ?crn c)" "x \<in> set (map fst o')"
      by (auto simp: map_concat)
    from main_out_bset [OF o] x(2)
    have "base d \<in> base ` set (crn_doms ?crn) \<union> ?G" by (rule subsetD)
    then show ?thesis by (simp only: irrev_doms)
  qed
  have id: "did d1 = did d2" and st: "starred d1 = starred d2"
    using n by (simp_all add: dname_def)
  have "base d1 = base d2"
  proof -
    from mem [OF d1] mem [OF d2] consider
      (bb) "base d1 \<in> ?B" "base d2 \<in> ?B" | (gg) "base d1 \<in> ?G" "base d2 \<in> ?G" |
      (bg) "base d1 \<in> ?B" "base d2 \<in> ?G" | (gb) "base d1 \<in> ?G" "base d2 \<in> ?B"
      by blast
    then show ?thesis
    proof cases
      case bb
      then obtain e1 e2 where e: "e1 \<in> set (crn_doms crn)" "base d1 = base e1"
        "e2 \<in> set (crn_doms crn)" "base d2 = base e2" by auto
      have "did e1 = did (base d1)" "did e2 = did (base d2)"
        using e(2,4) by simp_all
      then have "did e1 = did e2" using id by simp
      from cons [OF e(1,3) this] show ?thesis using e by simp
    next
      case gg
      then obtain i j where ij: "base d1 = main_ledger ?crn c i" "base d2 = main_ledger ?crn c j"
        by auto
      have "did (base d1) = i" "did (base d2) = j"
        unfolding ij by (simp_all add: did_main_ledger)
      then have "i = j" using id by simp
      then show ?thesis using ij by simp
    next
      case bg
      then obtain e i where e: "e \<in> set (crn_doms crn)" "base d1 = base e"
        and i: "c \<le> i" "base d2 = main_ledger ?crn c i" by auto
      have "did (base d1) = did e" "did (base d2) = i"
        unfolding e(2) i(2) by (simp_all add: did_main_ledger)
      then have "did d1 < c" "c \<le> did d2" using lt [OF e(1)] i(1) by simp_all
      then show ?thesis using id by simp
    next
      case gb
      then obtain e i where e: "e \<in> set (crn_doms crn)" "base d2 = base e"
        and i: "c \<le> i" "base d1 = main_ledger ?crn c i" by auto
      have "did (base d2) = did e" "did (base d1) = i"
        unfolding e(2) i(2) by (simp_all add: did_main_ledger)
      then have "did d2 < c" "c \<le> did d1" using lt [OF e(1)] i(1) by simp_all
      then show ?thesis using id by simp
    qed
  qed
  then show ?thesis using st by (rule base_eq_dname)
qed

lemma rgate_out_flat:
  "map (\<lambda>x. map fst (flat x)) (rgate_out r fl) =
     [concat (map (\<lambda>i. [Dom (dm (r ! i) ''m''), Dom (dm (r ! i) ''s''),
                          Dom (dm (r ! (i + 1)) ''f''), Brk]) [0..<length r - 1]) @
      [Brk, Dom (dm (last r) ''m''), Dom (dm (last r) ''s'')] @ map fst (flats fl) @
      [Brk, Dom (compl (dm (last r) ''s'')), Dom (compl (dm (last r) ''m''))] @
      concat (rev (map (\<lambda>i. [Dom (compl (dm (r ! (i + 1)) ''f'')), Dom (compl (dm (r ! i) ''s'')),
                               Dom (compl (dm (r ! i) ''m''))]) [0..<length r - 1])) @
      [Dom (compl (dm (r ! 0) ''f''))],
      concat (map (\<lambda>i. [Dom (dm (r ! i) ''m''), Dom (dm (r ! i) ''s''),
                          Dom (dm (r ! (i + 1)) ''f'')]) [0..<length r - 1])]"
  by (simp add: rgate_out_def Let_def flats_map flats_rev_map map_concat o_def reactg_out_def
      rev_map)

section \<open>The flux computation\<close>

text \<open>
  Claim C1. The flux computation splits three ways on the number of products. Without
  products it returns the empty flux structure and allocates nothing. With one product
  it returns one complex of two unpaired domains, a fresh long domain \<open>h\<close> (named by the
  counter \<open>c\<close>, which is then incremented) followed by the toehold \<open>f\<close> of the sole
  product. With more than one product it returns one complex of the fresh long domain
  alone.
\<close>

theorem flux_cases:
  "(len p = 0 \<longrightarrow> flux r p c = Inr ([[]], c)) \<and>
   (len p = 1 \<and> map_of (attributes (p ! 0)) ''f'' = Some f \<longrightarrow>
      flux r p c = Inr ([[Complex [Dom (MkDomain c Long [] False), f] [Dot, Dot]
                            [(''h'', Dom (MkDomain c Long [] False)), (''f'', f)]]], Suc c)) \<and>
   (len p > 1 \<and> map_of (attributes (p ! 0)) ''f'' = Some f \<longrightarrow>
      flux r p c = Inr ([[Complex [Dom (MkDomain c Long [] False)] [Dot]
                            [(''h'', Dom (MkDomain c Long [] False))]]], Suc c))"
  by (simp add: flux_def long_apply index_ok attr_def dna_def lookup_def) (simp add: ret_def)

theorem flux_cases_witness:
  "flux [] [] 9 = Inr ([[]], 9) \<and>
   flux [] [species_at 0] 9 =
     Inr ([[Complex [Dom (MkDomain 9 Long [] False),
                     Dom (MkDomain 0 Short [(''top'', ''WHHHHW''), (''bottom'', ''WDDDDW'')] False)]
                    [Dot, Dot]
                    [(''h'', Dom (MkDomain 9 Long [] False)),
                     (''f'', Dom (MkDomain 0 Short [(''top'', ''WHHHHW''), (''bottom'', ''WDDDDW'')]
                                   False))]]], 10) \<and>
   flux [] [species_at 0, species_at 3] 9 =
     Inr ([[Complex [Dom (MkDomain 9 Long [] False)] [Dot]
                    [(''h'', Dom (MkDomain 9 Long [] False))]]], 10)"
  using flux_cases [where p = "[]" and r = "[]" and c = 9]
    flux_cases [where p = "[species_at 0]" and r = "[]" and c = 9 and
      f = "Dom (MkDomain 0 Short [(''top'', ''WHHHHW''), (''bottom'', ''WDDDDW'')] False)"]
    flux_cases [where p = "[species_at 0, species_at 3]" and r = "[]" and c = 9 and
      f = "Dom (MkDomain 0 Short [(''top'', ''WHHHHW''), (''bottom'', ''WDDDDW'')] False)"]
  by (simp add: len_def species_at_def)

section \<open>The reaction compiler\<close>

text \<open>
  Claim C3. \<open>rxn\<close> builds the reactant side first, hands its complexes to the product
  side, and returns the complexes of both sides, each at infinite concentration. The
  product side is selected on the number of products: none gives no product complex,
  one gives \<^verbatim>\<open>srinivas_pgate_p1\<close>, more give \<^verbatim>\<open>srinivas_pgate\<close>. In both builders the first
  argument is the list of reactant-gate complexes when there are no reactants and the
  reactants otherwise, and the handle passed is \<^verbatim>\<open>react[0].fl[0].h\<close> (the function
  \<open>hist\<close>). On a reaction of species both sides succeed, so \<open>rxn\<close> returns; with at
  least one product, the handle is the flux domain the reactant side has just
  allocated.
\<close>

theorem produce_selection:
  "rxn r =
     bnd (react r) (\<lambda>re.
     bnd (if len (products r) = 0 then ret []
          else bnd (hist re)
                 ((if len (products r) = 1 then srinivas_pgate_p1 else srinivas_pgate)
                    (if len (reactants r) = 0 then re else reactants r) (products r))) (\<lambda>pr.
     ret (sum_ts (map infty (re @ pr))))) \<and>
   produce r re =
     (if len (products r) = 0 then ret []
      else bnd (hist re)
             ((if len (products r) = 1 then srinivas_pgate_p1 else srinivas_pgate)
                (if len (reactants r) = 0 then re else reactants r) (products r))) \<and>
   (wf_reaction r \<longrightarrow>
      react r c = Inr (react_out r c, react_end r c) \<and>
      produce r (react_out r c) (react_end r c) = Inr (produce_out r c, rxn_end r c) \<and>
      rxn r c = Inr (sum_ts (map infty (react_out r c @ produce_out r c)), rxn_end r c)) \<and>
   (wf_reaction r \<and> len (products r) = 0 \<longrightarrow> produce_out r c = []) \<and>
   (wf_reaction r \<and> len (products r) \<noteq> 0 \<longrightarrow>
      react r c = Inr (react_out r c, react_end r c) \<and>
      hist (react_out r c) = ret (Dom (hflux r c)) \<and>
      produce r (react_out r c) =
        (if len (products r) = 1 then srinivas_pgate_p1 else srinivas_pgate)
          (if len (reactants r) = 0 then react_out r c else reactants r) (products r)
          (Dom (hflux r c)))"
proof -
  have a: "produce r re =
     (if len (products r) = 0 then ret []
      else bnd (hist re)
             ((if len (products r) = 1 then srinivas_pgate_p1 else srinivas_pgate)
                (if len (reactants r) = 0 then re else reactants r) (products r)))" for re
    by (simp add: produce_def)
  have b: "rxn r =
     bnd (react r) (\<lambda>re.
     bnd (if len (products r) = 0 then ret []
          else bnd (hist re)
                 ((if len (products r) = 1 then srinivas_pgate_p1 else srinivas_pgate)
                    (if len (reactants r) = 0 then re else reactants r) (products r))) (\<lambda>pr.
     ret (sum_ts (map infty (re @ pr)))))"
    unfolding rxn_def a ..
  have c: "len (products r) \<noteq> 0 \<Longrightarrow> hist (react_out r c) = ret (Dom (hflux r c))"
    using hist_react_out [of r c] by (simp add: len_def)
  have d: "wf_reaction r \<Longrightarrow>
           rxn r c = Inr (sum_ts (map infty (react_out r c @ produce_out r c)), rxn_end r c)"
    using rxn_eq [of r c] by (simp only: rxn_out_def)
  have e: "len (products r) = 0 \<Longrightarrow> produce_out r c = []"
    by (simp add: produce_out_def len_def)
  have f: "len (products r) \<noteq> 0 \<Longrightarrow>
           produce r (react_out r c) =
             (if len (products r) = 1 then srinivas_pgate_p1 else srinivas_pgate)
               (if len (reactants r) = 0 then react_out r c else reactants r) (products r)
               (Dom (hflux r c))"
    using a [of "react_out r c"] c by simp
  from a [of re] b c d e f react_eq [of r c] produce_eq [of r c] show ?thesis by blast
qed

theorem produce_selection_witness:
  "wf_reaction \<lparr>reactants = [species_at 0], products = [species_at 3], reversible = False\<rparr> \<and>
   len [species_at 3] \<noteq> 0 \<and>
   react \<lparr>reactants = [species_at 0], products = [species_at 3], reversible = False\<rparr> 6 =
     Inr (rgate_out [species_at 0] (flux_out (MkDomain 6 Long [] False) [species_at 3]), 7) \<and>
   produce \<lparr>reactants = [species_at 0], products = [species_at 3], reversible = False\<rparr>
       (rgate_out [species_at 0] (flux_out (MkDomain 6 Long [] False) [species_at 3])) =
     srinivas_pgate_p1 [species_at 0] [species_at 3] (Dom (MkDomain 6 Long [] False)) \<and>
   rxn \<lparr>reactants = [species_at 0], products = [species_at 3], reversible = False\<rparr> 6 =
     Inr (sum_ts (map infty
            (rgate_out [species_at 0] (flux_out (MkDomain 6 Long [] False) [species_at 3]) @
             p1_out (dm (species_at 0) ''s'') (MkDomain 6 Long [] False) [species_at 3])), 7) \<and>
   wf_reaction \<lparr>reactants = [species_at 0], products = [], reversible = False\<rparr> \<and>
   len ([] :: complex list) = 0 \<and>
   produce_out \<lparr>reactants = [species_at 0], products = [], reversible = False\<rparr> 6 = []"
proof -
  let ?R = "\<lparr>reactants = [species_at 0], products = [species_at 3], reversible = False\<rparr>"
  let ?Q = "\<lparr>reactants = [species_at 0], products = [], reversible = False\<rparr>"
  have w: "wf_reaction ?R" "wf_reaction ?Q" "len (products ?R) \<noteq> 0" "len (products ?Q) = 0"
    by (simp_all add: wf_reaction_def species_at_species len_def)
  have v: "react_out ?R 6 = rgate_out [species_at 0] (flux_out (MkDomain 6 Long [] False) [species_at 3])"
    "react_end ?R 6 = 7" "rxn_end ?R 6 = 7" "hflux ?R 6 = MkDomain 6 Long [] False"
    "produce_out ?R 6 = p1_out (dm (species_at 0) ''s'') (MkDomain 6 Long [] False) [species_at 3]"
    by (simp_all add: react_out_def produce_out_def react_end_def rxn_end_def hflux_def
        flux_at_def anchor_s_def)
  note t = produce_selection [of ?R "[]" 6] produce_selection [of ?Q "[]" 6]
  have 1: "react ?R 6 = Inr (react_out ?R 6, react_end ?R 6)"
    and 2: "rxn ?R 6 = Inr (sum_ts (map infty (react_out ?R 6 @ produce_out ?R 6)), rxn_end ?R 6)"
    and 3: "produce ?R (react_out ?R 6) =
            (if len (products ?R) = 1 then srinivas_pgate_p1 else srinivas_pgate)
              (if len (reactants ?R) = 0 then react_out ?R 6 else reactants ?R) (products ?R)
              (Dom (hflux ?R 6))"
    and 4: "produce_out ?Q 6 = []"
    using t w by blast+
  from 1 2 3 4 show ?thesis using w by (simp add: v len_def)
qed

text \<open>
  Claim C9. The lookup \<^verbatim>\<open>react[0].fl[0].h\<close> is well defined wherever it is evaluated. On a
  reaction of species the reactant side returns; with at least one product the flux
  computation returns a singleton list holding one complex whose first domain is the
  long domain \<open>h\<close> just issued, and each step of the lookup (the two indexings, the
  attributes \<^verbatim>\<open>fl\<close> and \<^verbatim>\<open>h\<close>) returns, the whole giving \<open>h\<close>. Without products the
  lookup would fail with an index error, but \<^verbatim>\<open>produce\<close> is the empty list without
  evaluating it, and the reaction compiles.
\<close>

theorem hist_well_defined:
  assumes "wf_reaction r"
  shows "react r c = Inr (react_out r c, react_end r c) \<and>
    (1 \<le> len (products r) \<longrightarrow>
       flux (reactants r) (products r) (flux_at r c) =
         Inr ([[hd (flux_out (hflux r c) (products r))]], Suc (flux_at r c)) \<and>
       hd (sequence (hd (flux_out (hflux r c) (products r)))) = Dom (hflux r c) \<and>
       index (react_out r c) 0 = ret (hd (react_out r c)) \<and>
       attr (hd (react_out r c)) ''fl'' = ret (Sub [hd (flux_out (hflux r c) (products r))]) \<and>
       elems (Sub [hd (flux_out (hflux r c) (products r))]) =
         ret [hd (flux_out (hflux r c) (products r))] \<and>
       index [hd (flux_out (hflux r c) (products r))] 0 =
         ret (hd (flux_out (hflux r c) (products r))) \<and>
       attr (hd (flux_out (hflux r c) (products r))) ''h'' = ret (Dom (hflux r c)) \<and>
       hist (react_out r c) = ret (Dom (hflux r c))) \<and>
    (len (products r) = 0 \<longrightarrow>
       hist (react_out r c) = fail IndexError \<and>
       produce r (react_out r c) = ret [] \<and>
       rxn r c = Inr (sum_ts (map infty (react_out r c)), react_end r c))"
proof -
  have 1: "react r c = Inr (react_out r c, react_end r c)"
    by (rule react_eq [OF assms])
  have 2: "flux (reactants r) (products r) (flux_at r c) =
         Inr ([[hd (flux_out (hflux r c) (products r))]], Suc (flux_at r c))"
    if "products r \<noteq> []"
    using flux_eq [of "products r" "reactants r" "flux_at r c", OF wf_reactionD(2) [OF assms]]
      flux_out_nonempty [OF that, of "hflux r c"] that
    by (simp add: hflux_def)
  have 3: "attr (hd (react_out r c)) ''fl'' = ret (Sub [hd (flux_out (hflux r c) (products r))])"
    if "products r \<noteq> []"
    using react_out_fl [of r c] flux_out_nonempty [OF that, of "hflux r c"] by simp
  have 4: "rxn r c = Inr (sum_ts (map infty (react_out r c)), react_end r c)" if "products r = []"
    using rxn_eq [OF assms, of c] that by (simp add: rxn_out_def produce_out_def rxn_end_def)
  have 5: "produce r (react_out r c) = ret []" if "products r = []"
    using that by (simp add: produce_def len_def)
  show ?thesis
    using 1 2 3 4 5 flux_out_h [of "products r" "hflux r c"] react_out_nonempty [of r c]
    by (cases "products r = []")
       (simp_all add: len_def index_0 hist_react_out hist_react_out_empty elems_def)
qed

theorem hist_well_defined_witness:
  "wf_reaction \<lparr>reactants = [], products = [species_at 0, species_at 3], reversible = False\<rparr> \<and>
   1 \<le> len [species_at 0, species_at 3] \<and>
   hist (react_out \<lparr>reactants = [], products = [species_at 0, species_at 3], reversible = False\<rparr> 6)
     = ret (Dom (MkDomain 9 Long [] False)) \<and>
   wf_reaction \<lparr>reactants = [species_at 0], products = [], reversible = False\<rparr> \<and>
   len ([] :: complex list) = 0 \<and>
   hist (react_out \<lparr>reactants = [species_at 0], products = [], reversible = False\<rparr> 6)
     = fail IndexError \<and>
   rxn \<lparr>reactants = [species_at 0], products = [], reversible = False\<rparr> 6 =
     Inr (sum_ts (map infty
       (react_out \<lparr>reactants = [species_at 0], products = [], reversible = False\<rparr> 6)), 6)"
  using hist_well_defined [of "\<lparr>reactants = [], products = [species_at 0, species_at 3], reversible = False\<rparr>" 6]
    hist_well_defined [of "\<lparr>reactants = [species_at 0], products = [], reversible = False\<rparr>" 6]
  by (simp add: wf_reaction_def species_at_species len_def react_end_def hflux_def flux_at_def)

text \<open>
  Claim C8 as stated fails on the reaction without reactants and without products:
  compiling it raises no error and returns the two complexes of \<^verbatim>\<open>srinivas_rgate_r0\<close>.
\<close>

theorem rxn_empty_reaction_counterexample:
  "rxn \<lparr>reactants = [], products = [], reversible = False\<rparr> 0 =
     Inr ([(Complex [Dom (MkDomain 1 Long [] False), Dom (MkDomain 2 Short [] False), Sub [], Brk,
                     Dom (MkDomain 2 Short [] True), Dom (MkDomain 1 Long [] True),
                     Dom (MkDomain 0 Short [] True)]
                    [Open, Open, Wild, Plus, Close, Close, Dot]
                    [(''fl'', Sub []), (''sr'', Dom (MkDomain 2 Short [] False)),
                     (''mr'', Dom (MkDomain 1 Long [] False)),
                     (''fr'', Dom (MkDomain 0 Short [] False))], Infinite),
           (Complex [Dom (MkDomain 0 Short [] False), Dom (MkDomain 1 Long [] False),
                     Dom (MkDomain 2 Short [] False)]
                    [Dot, Dot, Dot]
                    [(''f'', Dom (MkDomain 0 Short [] False)), (''m'', Dom (MkDomain 1 Long [] False)),
                     (''s'', Dom (MkDomain 2 Short [] False))], Infinite)], 3)"
  using rxn_eq [of "\<lparr>reactants = [], products = [], reversible = False\<rparr>" 0]
  by (simp add: wf_reaction_def rxn_out_def rxn_end_def react_end_def flux_at_def react_out_def
      produce_out_def r0_out_def flux_out_def hflux_def sum_ts_def infty_def)

text \<open>
  Claim C8, amended. For every number of reactants and of products, none of each
  included, the compiler selects the reactant-gate builder on the number of reactants
  and the product-gate builder on the number of products, returns without error and
  gives a non-empty list of complexes: the two of the reactant side, and none, one or
  two of the product side.
\<close>

theorem arity_coverage:
  assumes "wf_reaction r"
  shows "rxn r c = Inr (rxn_out r c, rxn_end r c) \<and> rxn_out r c \<noteq> [] \<and>
    length (rxn_out r c) =
      2 + (if len (products r) = 0 then 0 else if len (products r) = 1 then 1 else 2) \<and>
    react r =
      (if len (reactants r) = 0 then srinivas_rgate_r0 (reactants r) (products r)
       else srinivas_rgate (reactants r) (products r)) \<and>
    produce r (react_out r c) =
      (if len (products r) = 0 then ret []
       else (if len (products r) = 1 then srinivas_pgate_p1 else srinivas_pgate)
              (if len (reactants r) = 0 then react_out r c else reactants r) (products r)
              (Dom (hflux r c)))"
proof -
  have n: "length (rxn_out r c) =
      2 + (if len (products r) = 0 then 0 else if len (products r) = 1 then 1 else 2)"
    by (simp add: rxn_out_def sum_ts_def infty_def react_out_def produce_out_def r0_out_def
        rgate_out_def p1_out_def pgate_out_def Let_def len_def o_def length_concat)
  then have "rxn_out r c \<noteq> []" by auto
  moreover have "produce r (react_out r c) =
      (if len (products r) = 0 then ret []
       else (if len (products r) = 1 then srinivas_pgate_p1 else srinivas_pgate)
              (if len (reactants r) = 0 then react_out r c else reactants r) (products r)
              (Dom (hflux r c)))"
    by (simp add: produce_def len_def hist_react_out)
  ultimately show ?thesis
    using n rxn_eq [OF assms, of c] by (simp add: react_def)
qed

theorem arity_coverage_witness:
  "wf_reaction \<lparr>reactants = [], products = [], reversible = False\<rparr> \<and>
   rxn \<lparr>reactants = [], products = [], reversible = False\<rparr> 0 =
     Inr (rxn_out \<lparr>reactants = [], products = [], reversible = False\<rparr> 0, 3) \<and>
   length (rxn_out \<lparr>reactants = [], products = [], reversible = False\<rparr> 0) = 2"
  using arity_coverage [of "\<lparr>reactants = [], products = [], reversible = False\<rparr>" 0]
  by (simp add: wf_reaction_def len_def rxn_end_def react_end_def flux_at_def)

section \<open>Product gates\<close>

text \<open>
  Claim C6, amended. Compiling the single irreversible reaction without reactants and
  with the products \<open>X\<close> and \<open>Y\<close> uses \<^verbatim>\<open>srinivas_rgate_r0\<close>, which allocates a fresh fuel
  triple and the flux domain, and \<^verbatim>\<open>srinivas_pgate\<close>. The product gate holds one
  \<^verbatim>\<open>prodg\<close> contribution, that of the second product \<open>Y\<close>: \<^verbatim>\<open>prodg\<close> is mapped over
  \<^verbatim>\<open>tail(p)\<close>, and the first product \<open>X\<close> stands in the top complex itself.
\<close>

theorem no_reactants_two_products:
  assumes "species X" "species Y"
  shows
   "react \<lparr>reactants = [], products = [X, Y], reversible = False\<rparr> = srinivas_rgate_r0 [] [X, Y] \<and>
    srinivas_rgate_r0 [] [X, Y] c =
      Inr (r0_out (MkDomain c Short [] False) (MkDomain (c + 1) Long [] False)
             (MkDomain (c + 2) Short [] False)
             [Complex [Dom (MkDomain (c + 3) Long [] False)] [Dot]
                [(''h'', Dom (MkDomain (c + 3) Long [] False))]], c + 4) \<and>
    produce \<lparr>reactants = [], products = [X, Y], reversible = False\<rparr>
        (r0_out (MkDomain c Short [] False) (MkDomain (c + 1) Long [] False)
           (MkDomain (c + 2) Short [] False)
           [Complex [Dom (MkDomain (c + 3) Long [] False)] [Dot]
              [(''h'', Dom (MkDomain (c + 3) Long [] False))]]) =
      srinivas_pgate
        (r0_out (MkDomain c Short [] False) (MkDomain (c + 1) Long [] False)
           (MkDomain (c + 2) Short [] False)
           [Complex [Dom (MkDomain (c + 3) Long [] False)] [Dot]
              [(''h'', Dom (MkDomain (c + 3) Long [] False))]])
        [X, Y] (Dom (MkDomain (c + 3) Long [] False)) \<and>
    mapM prodg (tail [X, Y]) (c + 4) = Inr ([prodg_out (history (c + 4)) Y], c + 5) \<and>
    main [\<lparr>reactants = [], products = [X, Y], reversible = False\<rparr>] c =
      Inr (sum_ts (map infty
        (r0_out (MkDomain c Short [] False) (MkDomain (c + 1) Long [] False)
           (MkDomain (c + 2) Short [] False)
           [Complex [Dom (MkDomain (c + 3) Long [] False)] [Dot]
              [(''h'', Dom (MkDomain (c + 3) Long [] False))]] @
         pgate_out (MkDomain (c + 2) Short [] False) (MkDomain (c + 3) Long [] False) [X, Y]
           (c + 4))), c + 5) \<and>
    map_of (attributes
        (hd (pgate_out (MkDomain (c + 2) Short [] False) (MkDomain (c + 3) Long [] False) [X, Y]
               (c + 4)))) ''n'' = Some (Sub [hd (prodg_out (history (c + 4)) Y)]) \<and>
    map prodg_groups
      (outputs (main [\<lparr>reactants = [], products = [X, Y], reversible = False\<rparr>]) c) =
      [0, 0, 1, 0]"
proof -
  let ?R = "\<lparr>reactants = [], products = [X, Y], reversible = False\<rparr>"
  have w: "wf_reaction ?R" using assms by (simp add: wf_reaction_def)
  have p: "\<And>x. x \<in> set [X, Y] \<Longrightarrow> species x" using assms by auto
  have 1: "react ?R = srinivas_rgate_r0 [] [X, Y]" by (simp add: react_def len_def)
  have 2: "srinivas_rgate_r0 [] [X, Y] c =
      Inr (r0_out (MkDomain c Short [] False) (MkDomain (c + 1) Long [] False)
             (MkDomain (c + 2) Short [] False)
             [Complex [Dom (MkDomain (c + 3) Long [] False)] [Dot]
                [(''h'', Dom (MkDomain (c + 3) Long [] False))]], c + 4)"
    using rgate_r0_eq [of "[X, Y]" "[]" c, OF p] by (simp add: flux_out_def)
  have 3: "produce ?R re = srinivas_pgate re [X, Y] (Dom (MkDomain (c + 3) Long [] False))"
    if "re = r0_out f m s [Complex [Dom (MkDomain (c + 3) Long [] False)] [Dot]
                [(''h'', Dom (MkDomain (c + 3) Long [] False))]]" for re f m s
    using hist_r0 [of "[X, Y]" f m s "MkDomain (c + 3) Long [] False"] that
    by (simp add: produce_def len_def flux_out_def)
  have 4: "mapM prodg (tail [X, Y]) (c + 4) = Inr ([prodg_out (history (c + 4)) Y], c + 5)"
    using mapM_prodg [of "[Y]" "c + 4"] assms(2) by (simp add: tail_def)
  have 5: "main [?R] c = Inr (rxn_out ?R c, c + 5)"
    using rxn_eq [OF w, of c] by (simp add: main_single rxn_end_def react_end_def flux_at_def)
  have 6: "map prodg_groups (outputs (main [?R]) c) = [0, 0, 1, 0]"
    using 5 by (simp add: outputs_def rxn_out_xy)
       (simp add: r0_out_def pgate_out_def sum_ts_def infty_def prodg_groups_def enumerate_eq_zip Let_def)
  have 7: "map_of (attributes
        (hd (pgate_out (MkDomain (c + 2) Short [] False) (MkDomain (c + 3) Long [] False) [X, Y]
               (c + 4)))) ''n'' = Some (Sub [hd (prodg_out (history (c + 4)) Y)])"
    by (simp add: pgate_out_def prodg_out_def Let_def)
  show ?thesis
    using 1 2 3 [OF refl] 4 5 6 7 by (simp only: rxn_out_xy simp_thms)
qed

theorem no_reactants_two_products_witness:
  "species (species_at 0) \<and> species (species_at 3) \<and>
   main [\<lparr>reactants = [], products = [species_at 0, species_at 3], reversible = False\<rparr>] 6 =
      Inr (sum_ts (map infty
        (r0_out (MkDomain 6 Short [] False) (MkDomain 7 Long [] False) (MkDomain 8 Short [] False)
           [Complex [Dom (MkDomain 9 Long [] False)] [Dot] [(''h'', Dom (MkDomain 9 Long [] False))]] @
         pgate_out (MkDomain 8 Short [] False) (MkDomain 9 Long [] False)
           [species_at 0, species_at 3] 10)), 11) \<and>
   mapM prodg (tail [species_at 0, species_at 3]) 10 =
     Inr ([prodg_out (history 10) (species_at 3)], 11)"
  using no_reactants_two_products [OF species_at_species species_at_species, of 0 3 6]
  by (simp add: species_at_species)

text \<open>
  Claim C6 as stated fails: of the four complexes compiled for a reaction without
  reactants and with two products, only the top complex of the product gate holds
  \<^verbatim>\<open>prodg\<close> contributions, and it holds one, not two.
\<close>

theorem two_products_counterexample:
  "map prodg_groups
     (outputs (main [\<lparr>reactants = [], products = [species_at 0, species_at 3],
                      reversible = False\<rparr>]) 6) = [0, 0, 1, 0]"
proof -
  have "main [\<lparr>reactants = [], products = [species_at 0, species_at 3], reversible = False\<rparr>] 6 =
        Inr (rxn_out \<lparr>reactants = [], products = [species_at 0, species_at 3],
                       reversible = False\<rparr> 6, 11)"
    by (simp add: main_single rxn_eq wf_reaction_def species_at_species rxn_end_def react_end_def
        flux_at_def)
  then show ?thesis
    by (simp add: outputs_def rxn_out_xy)
       (simp add: r0_out_def pgate_out_def sum_ts_def infty_def prodg_groups_def enumerate_eq_zip Let_def)
qed

text \<open>
  Claim C7, amended. For a reaction of species with at least two products, the top
  complex of the product gate exposes the triple \<open>f m s\<close> of the first product behind
  the flux handle \<open>hx\<close>: the long domain that the flux computation of the reactant side
  allocates once for the reaction, which carries no tag. It holds one \<^verbatim>\<open>prodg\<close> group
  for each product after the first, and each group has a fresh long domain of its own
  that is tagged \<^verbatim>\<open>history\<close>.
\<close>

theorem product_gate_top:
  assumes "wf_reaction r" "2 \<le> len (products r)"
  shows
   "rxn r c = Inr (sum_ts (map infty (react_out r c @ produce_out r c)), rxn_end r c) \<and>
    flux (reactants r) (products r) (flux_at r c) =
      Inr ([[Complex [Dom (hflux r c)] [Dot] [(''h'', Dom (hflux r c))]]], react_end r c) \<and>
    hflux r c = MkDomain (flux_at r c) Long [] False \<and> tag (hflux r c) = None \<and>
    mapM prodg (tail (products r)) (react_end r c) =
      Inr (map (\<lambda>(i, x). prodg_out (history i) x) (enumerate (react_end r c) (tl (products r))),
           rxn_end r c) \<and>
    (\<forall>i < length (products r) - 1.
       map (\<lambda>(i, x). prodg_out (history i) x) (enumerate (react_end r c) (tl (products r))) ! i =
         prodg_out (history (react_end r c + i)) (products r ! Suc i) \<and>
       tag (history (react_end r c + i)) = Some ''history'') \<and>
    produce_out r c =
      [Complex [Dom (hflux r c), Dom (dm (hd (products r)) ''f''), Dom (dm (hd (products r)) ''m''),
                Dom (dm (hd (products r)) ''s''), Brk,
                Sub (map (\<lambda>(i, x). hd (prodg_out (history i) x))
                       (enumerate (react_end r c) (tl (products r)))), Brk,
                Sub (rev (map (\<lambda>(i, x). prodg_out (history i) x ! 1)
                            (enumerate (react_end r c) (tl (products r))))),
                Dom (compl (dm (hd (products r)) ''f'')), Dom (compl (hflux r c)),
                Dom (compl (anchor_s r c))]
               [Open, Open, Dot, Dot, Plus, Wild, Plus, Wild, Close, Close, Dot]
               (attributes (hd (produce_out r c))),
       Complex [Dom (dm (hd (products r)) ''f''),
                Sub (map (\<lambda>(i, x). prodg_out (history i) x ! 2)
                       (enumerate (react_end r c) (tl (products r))))]
               [Dot, Wild] (attributes (produce_out r c ! 1))]"
proof -
  have p: "products r \<noteq> []" "length (products r) \<noteq> 1" "2 \<le> length (products r)"
    using assms(2) by (auto simp: len_def)
  have t: "\<And>x. x \<in> set (tl (products r)) \<Longrightarrow> species x"
    using wf_reactionD(2) [OF assms(1)] p(1) by (meson list.set_sel(2))
  have 1: "rxn r c = Inr (sum_ts (map infty (react_out r c @ produce_out r c)), rxn_end r c)"
    using rxn_eq [OF assms(1), of c] by (simp add: rxn_out_def)
  have 2: "flux (reactants r) (products r) (flux_at r c) =
      Inr ([[Complex [Dom (hflux r c)] [Dot] [(''h'', Dom (hflux r c))]]], react_end r c)"
    using flux_eq [of "products r" "reactants r" "flux_at r c", OF wf_reactionD(2) [OF assms(1)]] p
    by (simp add: flux_out_def hflux_def react_end_def)
  have 3: "mapM prodg (tail (products r)) (react_end r c) =
      Inr (map (\<lambda>(i, x). prodg_out (history i) x) (enumerate (react_end r c) (tl (products r))),
           rxn_end r c)"
    using mapM_prodg [of "tl (products r)" "react_end r c", OF t]
    by (simp add: tail_def drop_Suc rxn_end_def)
  have 4: "map (\<lambda>(i, x). prodg_out (history i) x) (enumerate (react_end r c) (tl (products r))) ! i =
         prodg_out (history (react_end r c + i)) (products r ! Suc i)"
    if "i < length (products r) - 1" for i
    using that by (simp add: nth_enumerate_eq nth_tl)
  have 5: "produce_out r c =
      [Complex [Dom (hflux r c), Dom (dm (hd (products r)) ''f''), Dom (dm (hd (products r)) ''m''),
                Dom (dm (hd (products r)) ''s''), Brk,
                Sub (map (\<lambda>(i, x). hd (prodg_out (history i) x))
                       (enumerate (react_end r c) (tl (products r)))), Brk,
                Sub (rev (map (\<lambda>(i, x). prodg_out (history i) x ! 1)
                            (enumerate (react_end r c) (tl (products r))))),
                Dom (compl (dm (hd (products r)) ''f'')), Dom (compl (hflux r c)),
                Dom (compl (anchor_s r c))]
               [Open, Open, Dot, Dot, Plus, Wild, Plus, Wild, Close, Close, Dot]
               (attributes (hd (produce_out r c))),
       Complex [Dom (dm (hd (products r)) ''f''),
                Sub (map (\<lambda>(i, x). prodg_out (history i) x ! 2)
                       (enumerate (react_end r c) (tl (products r))))]
               [Dot, Wild] (attributes (produce_out r c ! 1))]"
    using p by (simp add: produce_out_def pgate_out_def Let_def o_def split_def hd_conv_nth prodg_out_def)
  have 6: "hflux r c = MkDomain (flux_at r c) Long [] False" "tag (hflux r c) = None"
    by (simp_all add: hflux_def tag_def)
  from 1 2 3 4 5 6 tag_history show ?thesis by blast
qed

theorem product_gate_top_witness:
  "wf_reaction \<lparr>reactants = [species_at 0], products = [species_at 3, species_at 6],
                 reversible = False\<rparr> \<and>
   2 \<le> len [species_at 3, species_at 6] \<and>
   flux [species_at 0] [species_at 3, species_at 6] 9 =
     Inr ([[Complex [Dom (MkDomain 9 Long [] False)] [Dot] [(''h'', Dom (MkDomain 9 Long [] False))]]],
          10) \<and>
   tag (MkDomain 9 Long [] False) = None \<and>
   mapM prodg (tail [species_at 3, species_at 6]) 10 =
     Inr ([prodg_out (history 10) (species_at 6)], 11) \<and>
   tag (history 10) = Some ''history''"
  using product_gate_top [of "\<lparr>reactants = [species_at 0], products = [species_at 3, species_at 6],
                 reversible = False\<rparr>" 9]
  by (simp add: wf_reaction_def species_at_species len_def hflux_def flux_at_def react_end_def
      rxn_end_def enumerate_eq_zip)

text \<open>
  Claim C7 as stated fails: for one reactant and two products compiled from counter
  9, the domain in front of the triple of the first product in the top complex is the
  flux domain, and it is not tagged as a history domain.
\<close>

theorem product_gate_top_counterexample:
  "take 4 (sequence (outputs (rxn \<lparr>reactants = [species_at 0],
                                    products = [species_at 3, species_at 6],
                                    reversible = False\<rparr>) 9 ! 2)) =
     [Dom (MkDomain 9 Long [] False),
      Dom (MkDomain 3 Short [(''top'', ''WHHHHW''), (''bottom'', ''WDDDDW'')] False),
      Dom (MkDomain 4 Long [(''len'', ''2'')] False),
      Dom (MkDomain 5 Short [] False)] \<and>
   tag (MkDomain 9 Long [] False) = None \<and>
   tag (MkDomain 9 Long [] False) \<noteq> Some ''history''"
proof -
  have "outputs (rxn \<lparr>reactants = [species_at 0], products = [species_at 3, species_at 6],
                        reversible = False\<rparr>) 9 ! 2 =
        hd (pgate_out (dm (species_at 0) ''s'') (MkDomain 9 Long [] False)
              [species_at 3, species_at 6] 10)"
    by (simp add: outputs_rxn wf_reaction_def species_at_species react_out_def produce_out_def
        rgate_out_def pgate_out_def Let_def hflux_def flux_at_def anchor_s_def react_end_def)
  then show ?thesis
    by (simp add: pgate_out_def Let_def tag_def dm_def dom_attr_def species_at_def)
qed

section \<open>Reactant gates\<close>

text \<open>
  Claim C5, amended. For at least one reactant, \<^verbatim>\<open>srinivas_rgate\<close> computes one \<^verbatim>\<open>reactg\<close> group
  for every index \<open>i\<close> below \<open>len r - 1\<close>. Its three strand fragments are \<^verbatim>\<open>mb sb fa\<close> (all
  three domains opening a pair), the complement \<^verbatim>\<open>fa* sb* mb*\<close> (closing them) and the
  unpaired release fragment \<^verbatim>\<open>mb sb fa\<close>, where \<open>mb\<close> and \<open>sb\<close> are the domains \<open>m\<close> and
  \<open>s\<close> of reactant \<open>i\<close> and \<open>fa\<close> is the toehold \<open>f\<close> of reactant \<open>i + 1\<close>. The groups are
  not complexes of the output. The builder always returns two complexes, into which
  the fragments are spliced under \<^verbatim>\<open>n\<close>, \<^verbatim>\<open>m\<close> (reversed) and \<^verbatim>\<open>l\<close>: in the core complex
  every top fragment is a strand of its own and all the complement fragments, in
  reverse order, lie on the one bottom strand, between the complements of the last
  reactant's \<open>s\<close> and \<open>m\<close> and the complement of the first reactant's \<open>f\<close>; the second
  complex is the concatenation of the release fragments, with no strand break between
  them. In the core complex the domains \<open>m\<close> and \<open>s\<close> of the last reactant open the
  pairs that their complements close after the flux: the toehold \<open>s\<close> is sequestered
  there.
\<close>

theorem reactg_junctions:
  assumes "\<forall>x \<in> set r. species x" "\<forall>x \<in> set p. species x" "1 \<le> len r"
  shows
   "map2_ts reactg r (range_ts (len r - 1)) = ret (map (reactg_out r) [0..<length r - 1]) \<and>
    (\<forall>i < length r - 1.
       reactg r (int i) = ret (reactg_out r i) \<and>
       reactg_out r i =
         [Complex [Dom (dm (r ! i) ''m''), Dom (dm (r ! i) ''s''), Dom (dm (r ! (i + 1)) ''f''), Brk]
                  [Open, Open, Open, Plus] (attributes (reactg_out r i ! 0)),
          Complex [Dom (compl (dm (r ! (i + 1)) ''f'')), Dom (compl (dm (r ! i) ''s'')),
                   Dom (compl (dm (r ! i) ''m''))]
                  [Close, Close, Close] (attributes (reactg_out r i ! 1)),
          Complex [Dom (dm (r ! i) ''m''), Dom (dm (r ! i) ''s''), Dom (dm (r ! (i + 1)) ''f'')]
                  [Dot, Dot, Dot] (attributes (reactg_out r i ! 2))]) \<and>
    srinivas_rgate r p c =
      Inr ([Complex [Sub (map (\<lambda>i. reactg_out r i ! 0) [0..<length r - 1]), Brk,
                     Dom (dm (last r) ''m''), Dom (dm (last r) ''s''),
                     Sub (flux_out (MkDomain c Long [] False) p), Brk,
                     Dom (compl (dm (last r) ''s'')), Dom (compl (dm (last r) ''m'')),
                     Sub (rev (map (\<lambda>i. reactg_out r i ! 1) [0..<length r - 1])),
                     Dom (compl (dm (r ! 0) ''f''))]
                    [Wild, Plus, Open, Open, Wild, Plus, Close, Close, Wild, Dot]
                    (attributes (hd (rgate_out r (flux_out (MkDomain c Long [] False) p)))),
            Complex [Sub (map (\<lambda>i. reactg_out r i ! 2) [0..<length r - 1])] [Wild]
                    [(''l'', Sub (map (\<lambda>i. reactg_out r i ! 2) [0..<length r - 1]))]],
           c + (if p = [] then 0 else 1)) \<and>
    map_option (map (\<lambda>x. map fst (flat x))) (results (srinivas_rgate r p) c) =
      Some [concat (map (\<lambda>i. [Dom (dm (r ! i) ''m''), Dom (dm (r ! i) ''s''),
                                Dom (dm (r ! (i + 1)) ''f''), Brk]) [0..<length r - 1]) @
            [Brk, Dom (dm (last r) ''m''), Dom (dm (last r) ''s'')] @
            map fst (flats (flux_out (MkDomain c Long [] False) p)) @
            [Brk, Dom (compl (dm (last r) ''s'')), Dom (compl (dm (last r) ''m''))] @
            concat (rev (map (\<lambda>i. [Dom (compl (dm (r ! (i + 1)) ''f'')),
                                     Dom (compl (dm (r ! i) ''s'')),
                                     Dom (compl (dm (r ! i) ''m''))]) [0..<length r - 1])) @
            [Dom (compl (dm (r ! 0) ''f''))],
            concat (map (\<lambda>i. [Dom (dm (r ! i) ''m''), Dom (dm (r ! i) ''s''),
                                Dom (dm (r ! (i + 1)) ''f'')]) [0..<length r - 1])] \<and>
    last r = r ! nat (len r - 1)"
proof -
  have r: "\<And>x. x \<in> set r \<Longrightarrow> species x" and p: "\<And>x. x \<in> set p \<Longrightarrow> species x"
    and n: "r \<noteq> []"
    using assms by (auto simp: len_def)
  have 1: "map2_ts reactg r (range_ts (len r - 1)) = ret (map (reactg_out r) [0..<length r - 1])"
    by (rule map2_reactg [OF r])
  have 2: "reactg r (int i) = ret (reactg_out r i)" if "i < length r - 1" for i
    using that by (intro reactg_eq [OF r]) simp_all
  have 3: "reactg_out r i =
         [Complex [Dom (dm (r ! i) ''m''), Dom (dm (r ! i) ''s''), Dom (dm (r ! (i + 1)) ''f''), Brk]
                  [Open, Open, Open, Plus] (attributes (reactg_out r i ! 0)),
          Complex [Dom (compl (dm (r ! (i + 1)) ''f'')), Dom (compl (dm (r ! i) ''s'')),
                   Dom (compl (dm (r ! i) ''m''))]
                  [Close, Close, Close] (attributes (reactg_out r i ! 1)),
          Complex [Dom (dm (r ! i) ''m''), Dom (dm (r ! i) ''s''), Dom (dm (r ! (i + 1)) ''f'')]
                  [Dot, Dot, Dot] (attributes (reactg_out r i ! 2))]" for i
    by (simp add: reactg_out_def)
  have 4: "srinivas_rgate r p c =
      Inr ([Complex [Sub (map (\<lambda>i. reactg_out r i ! 0) [0..<length r - 1]), Brk,
                     Dom (dm (last r) ''m''), Dom (dm (last r) ''s''),
                     Sub (flux_out (MkDomain c Long [] False) p), Brk,
                     Dom (compl (dm (last r) ''s'')), Dom (compl (dm (last r) ''m'')),
                     Sub (rev (map (\<lambda>i. reactg_out r i ! 1) [0..<length r - 1])),
                     Dom (compl (dm (r ! 0) ''f''))]
                    [Wild, Plus, Open, Open, Wild, Plus, Close, Close, Wild, Dot]
                    (attributes (hd (rgate_out r (flux_out (MkDomain c Long [] False) p)))),
            Complex [Sub (map (\<lambda>i. reactg_out r i ! 2) [0..<length r - 1])] [Wild]
                    [(''l'', Sub (map (\<lambda>i. reactg_out r i ! 2) [0..<length r - 1]))]],
           c + (if p = [] then 0 else 1))"
    using rgate_eq [of r p c, OF r p n] by (simp add: rgate_out_def Let_def o_def)
  have 5: "last r = r ! nat (len r - 1)"
  proof -
    have "nat (int (length r) - 1) = length r - 1" by simp
    then show ?thesis using n by (simp add: last_conv_nth len_def)
  qed
  have 6: "map_option (map (\<lambda>x. map fst (flat x))) (results (srinivas_rgate r p) c) =
        Some [concat (map (\<lambda>i. [Dom (dm (r ! i) ''m''), Dom (dm (r ! i) ''s''),
                                  Dom (dm (r ! (i + 1)) ''f''), Brk]) [0..<length r - 1]) @
              [Brk, Dom (dm (last r) ''m''), Dom (dm (last r) ''s'')] @
              map fst (flats (flux_out (MkDomain c Long [] False) p)) @
              [Brk, Dom (compl (dm (last r) ''s'')), Dom (compl (dm (last r) ''m''))] @
              concat (rev (map (\<lambda>i. [Dom (compl (dm (r ! (i + 1)) ''f'')),
                                       Dom (compl (dm (r ! i) ''s'')),
                                       Dom (compl (dm (r ! i) ''m''))]) [0..<length r - 1])) @
              [Dom (compl (dm (r ! 0) ''f''))],
              concat (map (\<lambda>i. [Dom (dm (r ! i) ''m''), Dom (dm (r ! i) ''s''),
                                  Dom (dm (r ! (i + 1)) ''f'')]) [0..<length r - 1])]"
  proof -
    have "results (srinivas_rgate r p) c = Some (rgate_out r (flux_out (MkDomain c Long [] False) p))"
      using rgate_eq [of r p c, OF r p n] by (simp add: results_def)
    then show ?thesis by (simp only: option.map rgate_out_flat)
  qed
  from 1 2 3 4 5 6 show ?thesis by blast
qed

theorem reactg_junctions_witness:
  "species (species_at 0) \<and> species (species_at 3) \<and> species (species_at 6) \<and>
   1 \<le> len [species_at 0, species_at 3] \<and>
   map2_ts reactg [species_at 0, species_at 3] (range_ts (len [species_at 0, species_at 3] - 1)) =
     ret [reactg_out [species_at 0, species_at 3] 0] \<and>
   reactg [species_at 0, species_at 3] 0 = ret (reactg_out [species_at 0, species_at 3] 0) \<and>
   take 3 (sequence (hd (reactg_out [species_at 0, species_at 3] 0))) =
     [Dom (MkDomain 1 Long [(''len'', ''2'')] False), Dom (MkDomain 2 Short [] False),
      Dom (MkDomain 3 Short [(''top'', ''WHHHHW''), (''bottom'', ''WDDDDW'')] False)]"
  using reactg_junctions [of "[species_at 0, species_at 3]" "[species_at 6]" 9]
  by (simp add: species_at_species len_def)
     (simp add: reactg_out_def dm_def dom_attr_def species_at_def)

text \<open>
  Claim C5 as stated fails: for three reactants and one product compiled from counter
  12 there are two junctions, and the builder returns no complex of three strands for
  either of them. It returns two complexes. The first has four strands: the top
  fragments of the two junctions, the strand of the last reactant with the flux, and
  one bottom strand of nine domains, which holds the complement fragments of both
  junctions. The second has one strand of six domains, the two release fragments
  joined.
\<close>

theorem reactg_junctions_counterexample:
  "map_option (map strand_names)
     (results (srinivas_rgate [species_at 0, species_at 3, species_at 6] [species_at 9]) 12) =
   Some [[[(1, False), (2, False), (3, False)],
          [(4, False), (5, False), (6, False)],
          [(7, False), (8, False), (12, False), (9, False)],
          [(8, True), (7, True), (6, True), (5, True), (4, True), (3, True), (2, True),
           (1, True), (0, True)]],
         [[(1, False), (2, False), (3, False), (4, False), (5, False), (6, False)]]]"
  by code_simp

text \<open>
  Claim C10, amended. With exactly one reactant \<open>A\<close> the range of junction indices
  is empty, so no \<^verbatim>\<open>reactg\<close> group is computed and the three lists \<^verbatim>\<open>n\<close>, \<^verbatim>\<open>m\<close>, \<^verbatim>\<open>l\<close> are
  empty. The reactant gate is the core complex, whose two non-empty strands are
  \<^verbatim>\<open>mr sr fl\<close> and \<^verbatim>\<open>sr* mr* fr*\<close>, made of the domains \<open>f\<close>, \<open>m\<close>, \<open>s\<close> of \<open>A\<close> and of the
  flux, together with the complex \<^verbatim>\<open>"l" | "~"\<close>, which is empty: it collects the release
  strands of the junctions, and there are none. The flux is part of the core complex.
\<close>

theorem single_reactant:
  assumes "species A" "\<forall>x \<in> set p. species x"
  shows
   "map2_ts reactg [A] (range_ts (len [A] - 1)) = ret [] \<and>
    flip ([] :: complex list list) 3 = ret [[], [], []] \<and>
    flux [A] p c = Inr ([flux_out (MkDomain c Long [] False) p], c + (if p = [] then 0 else 1)) \<and>
    srinivas_rgate [A] p c =
      Inr ([Complex [Sub [], Brk, Dom (dm A ''m''), Dom (dm A ''s''),
                     Sub (flux_out (MkDomain c Long [] False) p), Brk,
                     Dom (compl (dm A ''s'')), Dom (compl (dm A ''m'')), Sub [],
                     Dom (compl (dm A ''f''))]
                    [Wild, Plus, Open, Open, Wild, Plus, Close, Close, Wild, Dot]
                    [(''n'', Sub []), (''fl'', Sub (flux_out (MkDomain c Long [] False) p)),
                     (''sr'', Dom (dm A ''s'')), (''mr'', Dom (dm A ''m'')), (''m'', Sub []),
                     (''fr'', Dom (dm A ''f''))],
            Complex [Sub []] [Wild] [(''l'', Sub [])]],
           c + (if p = [] then 0 else 1)) \<and>
    filter (\<lambda>s. s \<noteq> [])
      (strands (map fst (flat (hd (rgate_out [A] (flux_out (MkDomain c Long [] False) p)))))) =
      [[Dom (dm A ''m''), Dom (dm A ''s'')] @ map fst (flats (flux_out (MkDomain c Long [] False) p)),
       [Dom (compl (dm A ''s'')), Dom (compl (dm A ''m'')), Dom (compl (dm A ''f''))]] \<and>
    flat (Complex [Sub []] [Wild] [(''l'', Sub [])]) = []"
proof -
  have p: "\<And>x. x \<in> set p \<Longrightarrow> species x" using assms(2) by simp
  have a: "\<And>x. x \<in> set [A] \<Longrightarrow> species x" using assms(1) by simp
  have 1: "map2_ts reactg [A] (range_ts (len [A] - 1)) = ret []"
    by (simp add: map2_ts_def range_ts_def len_def)
  have 2: "flip ([] :: complex list list) 3 = ret [[], [], []]"
    using flip3 [of "[] :: complex list list"] by simp
  have 3: "flux [A] p c = Inr ([flux_out (MkDomain c Long [] False) p], c + (if p = [] then 0 else 1))"
    by (rule flux_eq [OF p])
  have 4: "srinivas_rgate [A] p c =
      Inr ([Complex [Sub [], Brk, Dom (dm A ''m''), Dom (dm A ''s''),
                     Sub (flux_out (MkDomain c Long [] False) p), Brk,
                     Dom (compl (dm A ''s'')), Dom (compl (dm A ''m'')), Sub [],
                     Dom (compl (dm A ''f''))]
                    [Wild, Plus, Open, Open, Wild, Plus, Close, Close, Wild, Dot]
                    [(''n'', Sub []), (''fl'', Sub (flux_out (MkDomain c Long [] False) p)),
                     (''sr'', Dom (dm A ''s'')), (''mr'', Dom (dm A ''m'')), (''m'', Sub []),
                     (''fr'', Dom (dm A ''f''))],
            Complex [Sub []] [Wild] [(''l'', Sub [])]],
           c + (if p = [] then 0 else 1))"
    using rgate_eq [of "[A]" p c, OF a p] by (simp add: rgate_out_def Let_def)
  have 5: "filter (\<lambda>s. s \<noteq> [])
      (strands (map fst (flat (hd (rgate_out [A] (flux_out (MkDomain c Long [] False) p)))))) =
      [[Dom (dm A ''m''), Dom (dm A ''s'')] @ map fst (flats (flux_out (MkDomain c Long [] False) p)),
       [Dom (compl (dm A ''s'')), Dom (compl (dm A ''m'')), Dom (compl (dm A ''f''))]]"
    by (simp add: rgate_out_def flux_out_def Let_def)
  have 6: "flat (Complex [Sub []] [Wild] [(''l'', Sub [])]) = []" by simp
  from 1 2 3 4 5 6 show ?thesis by (intro conjI)
qed

theorem single_reactant_witness:
  "species (species_at 0) \<and> species (species_at 3) \<and>
   map2_ts reactg [species_at 0] (range_ts (len [species_at 0] - 1)) = ret [] \<and>
   filter (\<lambda>s. s \<noteq> [])
     (strands (map fst (flat (hd (rgate_out [species_at 0]
        (flux_out (MkDomain 6 Long [] False) [species_at 3])))))) =
     [[Dom (MkDomain 1 Long [(''len'', ''2'')] False), Dom (MkDomain 2 Short [] False),
       Dom (MkDomain 6 Long [] False),
       Dom (MkDomain 3 Short [(''top'', ''WHHHHW''), (''bottom'', ''WDDDDW'')] False)],
      [Dom (MkDomain 2 Short [] True), Dom (MkDomain 1 Long [(''len'', ''2'')] True),
       Dom (MkDomain 0 Short [(''top'', ''WHHHHW''), (''bottom'', ''WDDDDW'')] True)]]"
proof -
  have h: "species (species_at 0)" "\<forall>x \<in> set [species_at 3]. species x"
    by (simp_all add: species_at_species)
  note t = single_reactant [OF h, of 6]
  have a: "map2_ts reactg [species_at 0] (range_ts (len [species_at 0] - 1)) = ret []"
    using t by blast
  have "filter (\<lambda>s. s \<noteq> [])
     (strands (map fst (flat (hd (rgate_out [species_at 0]
        (flux_out (MkDomain 6 Long [] False) [species_at 3])))))) =
     [[Dom (dm (species_at 0) ''m''), Dom (dm (species_at 0) ''s'')] @
        map fst (flats (flux_out (MkDomain 6 Long [] False) [species_at 3])),
       [Dom (compl (dm (species_at 0) ''s'')), Dom (compl (dm (species_at 0) ''m'')),
        Dom (compl (dm (species_at 0) ''f''))]]"
    using t by blast
  also have "\<dots> =
     [[Dom (MkDomain 1 Long [(''len'', ''2'')] False), Dom (MkDomain 2 Short [] False),
       Dom (MkDomain 6 Long [] False),
       Dom (MkDomain 3 Short [(''top'', ''WHHHHW''), (''bottom'', ''WDDDDW'')] False)],
      [Dom (MkDomain 2 Short [] True), Dom (MkDomain 1 Long [(''len'', ''2'')] True),
       Dom (MkDomain 0 Short [(''top'', ''WHHHHW''), (''bottom'', ''WDDDDW'')] True)]]"
    by (simp add: flux_out_def dm_def dom_attr_def species_at_def)
  finally show ?thesis using h a by simp
qed

text \<open>
  Claim C10 as stated fails: for one reactant and one product compiled from counter
  6, the gate has the core complex, which holds the flux domains, and a second complex
  without any domain; no separate strand carries the flux.
\<close>

theorem single_reactant_counterexample:
  "map_option (map (map fst \<circ> flat)) (results (srinivas_rgate [species_at 0] [species_at 3]) 6) =
     Some [[Brk, Dom (MkDomain 1 Long [(''len'', ''2'')] False), Dom (MkDomain 2 Short [] False),
            Dom (MkDomain 6 Long [] False),
            Dom (MkDomain 3 Short [(''top'', ''WHHHHW''), (''bottom'', ''WDDDDW'')] False), Brk,
            Dom (MkDomain 2 Short [] True), Dom (MkDomain 1 Long [(''len'', ''2'')] True),
            Dom (MkDomain 0 Short [(''top'', ''WHHHHW''), (''bottom'', ''WDDDDW'')] True)],
           []]"
proof -
  have "srinivas_rgate [species_at 0] [species_at 3] 6 =
        Inr (rgate_out [species_at 0] (flux_out (MkDomain 6 Long [] False) [species_at 3]), 7)"
    using rgate_eq [of "[species_at 0]" "[species_at 3]" 6] by (simp add: species_at_species)
  then have r: "results (srinivas_rgate [species_at 0] [species_at 3]) 6 =
        Some (rgate_out [species_at 0] (flux_out (MkDomain 6 Long [] False) [species_at 3]))"
    by (simp add: results_def)
  show ?thesis
    unfolding r
    by (simp add: rgate_out_def flux_out_def Let_def dm_def dom_attr_def species_at_def)
qed

section \<open>The CRN compiler\<close>

text \<open>
  Claim C2, amended. \<^verbatim>\<open>main\<close> first rewrites the list of reactions by \<^verbatim>\<open>irrev_reactions\<close> and
  compiles the rewritten list only: every reversible reaction stands there as its
  forward and its backward instance, in this order, and every irreversible reaction as
  it is. Hence compiling a reversible reaction alone is compiling its forward instance
  and then its backward instance with the allocator going on from the counter the
  forward compilation has reached, and joining the two results; on species both
  compilations return, and the set of complexes is the union of theirs. The two
  compilations are not independent: the backward one starts where the forward one
  ends.
\<close>

theorem reversible_expansion:
  "main crn = bnd (mapM rxn (irrev_reactions crn)) (\<lambda>xs. ret (sum_ts xs)) \<and>
   irrev_reactions crn =
     concat (map (\<lambda>r. if reversible r then [forward r, backward r] else [r]) crn) \<and>
   (reversible r \<longrightarrow>
      main [r] = bnd (main [forward r]) (\<lambda>a. bnd (main [backward r]) (\<lambda>b. ret (a @ b)))) \<and>
   (reversible r \<and> wf_reaction r \<longrightarrow>
      main [forward r] c = Inr (rxn_out (forward r) c, rxn_end (forward r) c) \<and>
      main [backward r] (rxn_end (forward r) c) =
        Inr (rxn_out (backward r) (rxn_end (forward r) c),
             rxn_end (backward r) (rxn_end (forward r) c)) \<and>
      main [r] c =
        Inr (rxn_out (forward r) c @ rxn_out (backward r) (rxn_end (forward r) c),
             rxn_end (backward r) (rxn_end (forward r) c)) \<and>
      set (outputs (main [r]) c) =
        set (outputs (main [forward r]) c) \<union>
        set (outputs (main [backward r]) (rxn_end (forward r) c)))"
proof -
  have 1: "main crn = bnd (mapM rxn (irrev_reactions crn)) (\<lambda>xs. ret (sum_ts xs))"
    by (simp add: main_def)
  have 2: "irrev_reactions crn =
     concat (map (\<lambda>r. if reversible r then [forward r, backward r] else [r]) crn)"
    by (induction crn) (simp_all add: forward_def backward_def)
  have 3: "main [forward r] c = Inr (rxn_out (forward r) c, rxn_end (forward r) c)"
    and 4: "main [backward r] (rxn_end (forward r) c) =
        Inr (rxn_out (backward r) (rxn_end (forward r) c),
             rxn_end (backward r) (rxn_end (forward r) c))"
    if "wf_reaction r"
    using that
    by (simp_all add: main_single forward_def [THEN arg_cong [of _ _ reversible]]
        backward_def [THEN arg_cong [of _ _ reversible]] rxn_eq wf_forward_backward)
  have 5: "main [r] c =
        Inr (rxn_out (forward r) c @ rxn_out (backward r) (rxn_end (forward r) c),
             rxn_end (backward r) (rxn_end (forward r) c))"
    if "wf_reaction r" "reversible r"
    by (simp add: main_reversible [OF that(2)] bnd_Inr [of "main [forward r]", OF 3 [OF that(1)]]
        bnd_Inr [of "main [backward r]", OF 4 [OF that(1)]] ret_def)
  have 6: "set (outputs (main [r]) c) =
        set (outputs (main [forward r]) c) \<union>
        set (outputs (main [backward r]) (rxn_end (forward r) c))"
    if "wf_reaction r" "reversible r"
    by (simp add: outputs_def 3 [OF that(1)] 4 [OF that(1)] 5 [OF that])
  from 1 2 3 4 5 6 main_reversible [of r] show ?thesis by blast
qed

theorem reversible_expansion_witness:
  "reversible \<lparr>reactants = [species_at 0, species_at 3], products = [species_at 6],
               reversible = True\<rparr> \<and>
   wf_reaction \<lparr>reactants = [species_at 0, species_at 3], products = [species_at 6],
                reversible = True\<rparr> \<and>
   irrev_reactions [\<lparr>reactants = [species_at 0, species_at 3], products = [species_at 6],
                     reversible = True\<rparr>] =
     [\<lparr>reactants = [species_at 0, species_at 3], products = [species_at 6], reversible = False\<rparr>,
      \<lparr>reactants = [species_at 6], products = [species_at 0, species_at 3], reversible = False\<rparr>] \<and>
   main [\<lparr>reactants = [species_at 0, species_at 3], products = [species_at 6],
           reversible = False\<rparr>] 9 =
     Inr (rxn_out \<lparr>reactants = [species_at 0, species_at 3], products = [species_at 6],
                   reversible = False\<rparr> 9, 10) \<and>
   main [\<lparr>reactants = [species_at 6], products = [species_at 0, species_at 3],
           reversible = False\<rparr>] 10 =
     Inr (rxn_out \<lparr>reactants = [species_at 6], products = [species_at 0, species_at 3],
                   reversible = False\<rparr> 10, 12) \<and>
   main [\<lparr>reactants = [species_at 0, species_at 3], products = [species_at 6],
           reversible = True\<rparr>] 9 =
     Inr (rxn_out \<lparr>reactants = [species_at 0, species_at 3], products = [species_at 6],
                   reversible = False\<rparr> 9 @
          rxn_out \<lparr>reactants = [species_at 6], products = [species_at 0, species_at 3],
                   reversible = False\<rparr> 10, 12)"
proof -
  let ?R = "\<lparr>reactants = [species_at 0, species_at 3], products = [species_at 6],
             reversible = True\<rparr>"
  have h: "reversible ?R" "wf_reaction ?R"
    by (simp_all add: wf_reaction_def species_at_species)
  have e: "rxn_end (forward ?R) 9 = 10" "rxn_end (backward ?R) 10 = 12"
    by (simp_all add: forward_def backward_def rxn_end_def react_end_def flux_at_def)
  have f: "forward ?R = \<lparr>reactants = [species_at 0, species_at 3], products = [species_at 6],
                          reversible = False\<rparr>"
    "backward ?R = \<lparr>reactants = [species_at 6], products = [species_at 0, species_at 3],
                     reversible = False\<rparr>"
    by (simp_all add: forward_def backward_def)
  note t = reversible_expansion [of "[?R]" ?R 9]
  have "main [forward ?R] 9 = Inr (rxn_out (forward ?R) 9, rxn_end (forward ?R) 9)"
    "main [backward ?R] (rxn_end (forward ?R) 9) =
        Inr (rxn_out (backward ?R) (rxn_end (forward ?R) 9),
             rxn_end (backward ?R) (rxn_end (forward ?R) 9))"
    "main [?R] 9 =
        Inr (rxn_out (forward ?R) 9 @ rxn_out (backward ?R) (rxn_end (forward ?R) 9),
             rxn_end (backward ?R) (rxn_end (forward ?R) 9))"
    using t h by blast+
  then show ?thesis using h by (simp add: e [unfolded f] f)
qed

text \<open>
  Claim C2 as stated fails: compiled each on its own from counter 9, the reactions
  \<open>A + B \<rightarrow> C\<close> and \<open>C \<rightarrow> A + B\<close> both name their flux domain 9, so that the two gates
  share a domain, while the compilation of \<open>A + B \<rightleftharpoons> C\<close> from counter 9 gives the backward
  gate the fresh domains 10 and 11. The two sets of complexes differ.
\<close>

theorem independent_compilation_counterexample:
  "set (outputs (main [\<lparr>reactants = [species_at 0, species_at 3], products = [species_at 6],
                         reversible = True\<rparr>]) 9) \<noteq>
   set (outputs (main [\<lparr>reactants = [species_at 0, species_at 3], products = [species_at 6],
                         reversible = False\<rparr>]) 9) \<union>
   set (outputs (main [\<lparr>reactants = [species_at 6], products = [species_at 0, species_at 3],
                         reversible = False\<rparr>]) 9) \<and>
   MkDomain 9 Long [] False \<in>
     set (out_doms (outputs (main [\<lparr>reactants = [species_at 0, species_at 3],
                                     products = [species_at 6], reversible = False\<rparr>]) 9)) \<and>
   MkDomain 9 Long [] False \<in>
     set (out_doms (outputs (main [\<lparr>reactants = [species_at 6],
                                     products = [species_at 0, species_at 3],
                                     reversible = False\<rparr>]) 9)) \<and>
   MkDomain 9 Long [] False \<notin>
     set (out_doms (outputs (rxn \<lparr>reactants = [species_at 6],
                                  products = [species_at 0, species_at 3],
                                  reversible = False\<rparr>) 10))"
  by code_simp

section \<open>The compiled complexes\<close>

text \<open>
  Claim C4. Compiling a well-formed CRN returns, and every complex of the output meets
  the conditions of the data model: sequence and structure agree position by position
  (\<open>aligned\<close>, so that the strands and the domains counted in the structure are those
  of the sequence), the parentheses of the flat structure nest (\<open>balanced\<close>), and every
  pair joins a domain and its complement (\<open>paired\<close>). No two distinct domains of the
  output have the same name.
\<close>

theorem compiled_complexes_well_formed:
  assumes "wf_crn crn c"
  shows
   "main crn c =
      Inr (sum_ts (main_out (irrev_reactions crn) c), main_end (irrev_reactions crn) c) \<and>
    (\<forall>x \<in> set (outputs (main crn) c).
       aligned x \<and> balanced (map snd (flat x)) 0 \<and> paired (flat x) []) \<and>
    (\<forall>d1 \<in> set (out_doms (outputs (main crn) c)).
       \<forall>d2 \<in> set (out_doms (outputs (main crn) c)). d1 \<noteq> d2 \<longrightarrow> dname d1 \<noteq> dname d2)"
proof -
  have w: "list_all wf_reaction crn" using assms by (simp add: wf_crn_def)
  have 1: "main crn c =
      Inr (sum_ts (main_out (irrev_reactions crn) c), main_end (irrev_reactions crn) c)"
    by (rule main_eq [OF w])
  have 2: "aligned x \<and> balanced (map snd (flat x)) 0 \<and> paired (flat x) []"
    if "x \<in> set (outputs (main crn) c)" for x
    using main_wfc [OF w that] by (simp add: wfc_def)
  have 3: "dname d1 \<noteq> dname d2"
    if "d1 \<in> set (out_doms (outputs (main crn) c))" "d2 \<in> set (out_doms (outputs (main crn) c))"
      "d1 \<noteq> d2" for d1 d2
    using names_unique [OF assms that(1,2)] that(3) by blast
  from 1 2 3 show ?thesis by blast
qed

theorem compiled_complexes_well_formed_witness:
  "wf_crn [\<lparr>reactants = [species_at 0, species_at 3], products = [species_at 6],
            reversible = True\<rparr>] 9 \<and>
   results (main [\<lparr>reactants = [species_at 0, species_at 3], products = [species_at 6],
                   reversible = True\<rparr>]) 9 \<noteq> None \<and>
   list_all (\<lambda>x. aligned x \<and> balanced (map snd (flat x)) 0 \<and> paired (flat x) [])
     (outputs (main [\<lparr>reactants = [species_at 0, species_at 3], products = [species_at 6],
                      reversible = True\<rparr>]) 9) \<and>
   inj_on dname
     (set (out_doms (outputs (main [\<lparr>reactants = [species_at 0, species_at 3],
                                      products = [species_at 6], reversible = True\<rparr>]) 9)))"
proof -
  let ?crn = "[\<lparr>reactants = [species_at 0, species_at 3], products = [species_at 6],
                reversible = True\<rparr>]"
  have d: "crn_doms ?crn =
    [MkDomain 0 Short [(''top'', ''WHHHHW''), (''bottom'', ''WDDDDW'')] False,
     MkDomain 1 Long [(''len'', ''2'')] False, MkDomain 2 Short [] False,
     MkDomain 3 Short [(''top'', ''WHHHHW''), (''bottom'', ''WDDDDW'')] False,
     MkDomain 4 Long [(''len'', ''2'')] False, MkDomain 5 Short [] False,
     MkDomain 6 Short [(''top'', ''WHHHHW''), (''bottom'', ''WDDDDW'')] False,
     MkDomain 7 Long [(''len'', ''2'')] False, MkDomain 8 Short [] False]"
    by (simp add: crn_doms_def rxn_doms_def sp_doms_def dm_def dom_attr_def species_at_def)
  have w: "wf_crn ?crn 9"
    unfolding wf_crn_def d by (simp add: wf_reaction_def species_at_species)
  note t = compiled_complexes_well_formed [OF w]
  have "results (main ?crn) 9 \<noteq> None" using t by (simp add: results_def)
  moreover have "list_all (\<lambda>x. aligned x \<and> balanced (map snd (flat x)) 0 \<and> paired (flat x) [])
     (outputs (main ?crn) 9)"
    using t unfolding list_all_iff by blast
  moreover have "inj_on dname (set (out_doms (outputs (main ?crn) 9)))"
    using t unfolding inj_on_def by blast
  ultimately show ?thesis using w by blast
qed

end
